theory Spec2Isabelle
  imports Main "HOL-Library.Word" "HOL-Library.Multiset"
begin

section \<open>Values shared with the rest of the server\<close>

text \<open>
  The queue callbacks of \<^verbatim>\<open>libgearman/queue_libsqlite3.c\<close> receive every field of a
  job as a pointer with a byte count (\<^verbatim>\<open>const void *unique, size_t unique_size\<close>): the
  model passes the bytes themselves, and the count is the length of the list.
\<close>

type_synonym bytes = "8 word list"

text \<open>
  Modelled from the spec: the enum \<^verbatim>\<open>gearman_return_t\<close> is declared in
  \<^verbatim>\<open>libgearman/constants.h\<close>, which is not part of the sources at hand. The file names
  three of its enumerators; a replay callback may hand back any other one, kept here
  with its number.
\<close>

datatype gearman_return_t =
    GEARMAN_SUCCESS
  | GEARMAN_MEMORY_ALLOCATION_FAILURE
  | GEARMAN_QUEUE_ERROR
  | GEARMAN_RETURN_OTHER nat

text \<open>
  Modelled from the spec: \<^verbatim>\<open>gearman_job_priority_t\<close> (same header) is the closed integer
  enumeration HIGH, NORMAL, LOW. A C enum travels as a 32-bit integer, and the file
  converts it to and from the driver's 64-bit integers, so the model keeps the integer.
\<close>

type_synonym gearman_job_priority_t = "32 word"

definition GEARMAN_JOB_PRIORITY_HIGH :: gearman_job_priority_t where
  "GEARMAN_JOB_PRIORITY_HIGH = 0"

definition GEARMAN_JOB_PRIORITY_NORMAL :: gearman_job_priority_t where
  "GEARMAN_JOB_PRIORITY_NORMAL = 1"

definition GEARMAN_JOB_PRIORITY_LOW :: gearman_job_priority_t where
  "GEARMAN_JOB_PRIORITY_LOW = 2"

definition valid_priority :: "gearman_job_priority_t \<Rightarrow> bool" where
  "valid_priority p \<longleftrightarrow>
     p = GEARMAN_JOB_PRIORITY_HIGH \<or> p = GEARMAN_JOB_PRIORITY_NORMAL \<or> p = GEARMAN_JOB_PRIORITY_LOW"

text \<open>The constants of the file, and the width of \<^verbatim>\<open>size_t\<close> (64 bits).\<close>

definition GEARMAN_QUEUE_SQLITE_DEFAULT_TABLE :: string where
  "GEARMAN_QUEUE_SQLITE_DEFAULT_TABLE = ''gearman_queue''"

definition GEARMAN_QUEUE_QUERY_BUFFER :: nat where
  "GEARMAN_QUEUE_QUERY_BUFFER = 256"

definition SQLITE_MAX_TABLE_SIZE :: nat where
  "SQLITE_MAX_TABLE_SIZE = 256"

definition SIZE_MODULUS :: nat where
  "SIZE_MODULUS = 2 ^ 64"

text \<open>The \<^verbatim>\<open>-1\<close> that the file passes where a \<^verbatim>\<open>size_t\<close> is expected.\<close>

definition SIZE_MAX :: nat where
  "SIZE_MAX = SIZE_MODULUS - 1"

text \<open>
  A \<^verbatim>\<open>size_t\<close> handed to an \<^verbatim>\<open>int\<close> parameter keeps its low 32 bits, read as two's
  complement: the \<^verbatim>\<open>-1\<close> that \<^verbatim>\<open>_sqlite_lock\<close> passes for a \<^verbatim>\<open>size_t\<close> arrives as
  \<^verbatim>\<open>-1\<close> again.
\<close>

definition size_t_to_int :: "nat \<Rightarrow> int" where
  "size_t_to_int n = sint (word_of_nat n :: 32 word)"

text \<open>
  \<^verbatim>\<open>snprintf(str, n, fmt, ...)\<close>, given the expansion \<open>s\<close> of the format: at most
  \<open>n - 1\<close> bytes are written before the terminator, nothing is written when
  \<open>n\<close> is 0, and the value returned is the length of the whole expansion.
  Writing through a null pointer does not return (\<open>None\<close>).
\<close>

definition snprintf :: "string option \<Rightarrow> nat \<Rightarrow> string \<Rightarrow> (string option \<times> nat) option" where
  "snprintf str n s =
     (if n = 0 then Some (str, length s)
      else (case str of
              None \<Rightarrow> None
            | Some old \<Rightarrow> Some (Some (take (n - 1) s), length s)))"

text \<open>The statement texts the file formats, as functions of the table name.\<close>

definition insert_sql :: "string \<Rightarrow> string" where
  "insert_sql t =
     ''INSERT INTO '' @ t @ '' (priority,unique_key,function_name,data) VALUES (?,?,?,?)''"

definition delete_sql :: "string \<Rightarrow> string" where
  "delete_sql t = ''DELETE FROM '' @ t @ '' WHERE unique_key=?''"

definition select_sql :: "string \<Rightarrow> string" where
  "select_sql t = ''SELECT unique_key,function_name,priority,data FROM '' @ t"

definition create_sql :: "string \<Rightarrow> string" where
  "create_sql t =
     ''CREATE TABLE '' @ t @
     ''(unique_key TEXT PRIMARY KEY,function_name TEXT,priority INTEGER,data BLOB)''"

definition catalog_sql :: string where
  "catalog_sql =
     ''SELECT name FROM sqlite_master WHERE type='' @ [CHR 0x27] @ ''table'' @ [CHR 0x27]"

text \<open>\<^verbatim>\<open>strcasecmp(a, b) == 0\<close>: equality after folding the ASCII capitals.\<close>

definition tolower_c :: "char \<Rightarrow> char" where
  "tolower_c c =
     (let n = (of_char c :: nat) in if 65 \<le> n \<and> n \<le> 90 then char_of (n + 32) else c)"

definition strcasecmp_eq :: "string \<Rightarrow> string \<Rightarrow> bool" where
  "strcasecmp_eq a b \<longleftrightarrow> map tolower_c a = map tolower_c b"

section \<open>The database driver\<close>

text \<open>
  The file drives the SQLite library, whose code is not part of the repository. What
  follows is the contract of the calls the file makes, as far as the file relies on it:
  a connection holds tables of rows, statements are prepared from text, bound, stepped
  and finalised. Any call that touches storage can fail for reasons of its own (a busy
  or full store): the connection carries a script of result codes, one consumed by each
  prepare and each step, and an error code in the script makes that call fail with it.
  The connection also records the text of every statement it is asked to prepare.
\<close>

abbreviation SQLITE_OK :: int where "SQLITE_OK \<equiv> 0"
abbreviation SQLITE_ERROR :: int where "SQLITE_ERROR \<equiv> 1"
abbreviation SQLITE_BUSY :: int where "SQLITE_BUSY \<equiv> 5"
abbreviation SQLITE_READONLY :: int where "SQLITE_READONLY \<equiv> 8"
abbreviation SQLITE_CONSTRAINT :: int where "SQLITE_CONSTRAINT \<equiv> 19"
abbreviation SQLITE_MISMATCH :: int where "SQLITE_MISMATCH \<equiv> 20"
abbreviation SQLITE_MISUSE :: int where "SQLITE_MISUSE \<equiv> 21"
abbreviation SQLITE_ROW :: int where "SQLITE_ROW \<equiv> 100"
abbreviation SQLITE_DONE :: int where "SQLITE_DONE \<equiv> 101"

definition is_error :: "int \<Rightarrow> bool" where
  "is_error rc \<longleftrightarrow> rc \<noteq> SQLITE_OK \<and> rc \<noteq> SQLITE_ROW \<and> rc \<noteq> SQLITE_DONE"

text \<open>
  A row of the queue table: the four columns of the CREATE statement. The integer
  column is the driver's 64-bit integer.
\<close>

record queue_row =
  row_unique_key :: bytes
  row_function_name :: bytes
  row_priority :: "64 word"
  row_data :: bytes

datatype sql_value = SQL_INTEGER "64 word" | SQL_TEXT bytes | SQL_BLOB bytes

datatype sql_cmd =
    SQL_BEGIN
  | SQL_COMMIT
  | SQL_CATALOG
  | SQL_CREATE string
  | SQL_INSERT string
  | SQL_DELETE string
  | SQL_DELETE_TRUE string
  | SQL_DELETE_ALL string
  | SQL_SELECT string

text \<open>
  A connection: the tables in catalogue order, each with its rows in storage order;
  the order in which a scan delivers the rows of a table (storage-defined, so a
  parameter of the connection); which texts the driver reads as a true condition (those
  it reads as a number other than zero: its own conversion, so a parameter as well);
  whether a transaction is open; the script of result codes; the statements seen so far.
\<close>

record sqlite3 =
  catalog :: "(string \<times> queue_row list) list"
  scan_order :: "queue_row list \<Rightarrow> queue_row list"
  text_true :: "bytes \<Rightarrow> bool"
  in_txn :: bool
  faults :: "int list"
  trace :: "string list"

record sqlite3_stmt =
  stmt_cmd :: sql_cmd
  stmt_params :: "nat \<rightharpoonup> sql_value"
  stmt_cursor :: nat
  stmt_rc :: int
  stmt_row :: "queue_row option"
  stmt_name :: "string option"

fun strip_prefix :: "string \<Rightarrow> string \<Rightarrow> string option" where
  "strip_prefix [] s = Some s"
| "strip_prefix (p # ps) [] = None"
| "strip_prefix (p # ps) (c # cs) = (if p = c then strip_prefix ps cs else None)"

text \<open>
  The driver's reading of a table name: a word of letters, digits, underscores, dollar
  signs and bytes above 127 that starts with none of the digits nor with the dollar
  sign. \<open>split_name\<close> takes the longest such word off the front of a text. A name
  written any other way (quoted, qualified) is beyond the model, which refuses it; the
  words the driver keeps for itself are not told apart from other names.
\<close>

definition ident_start :: "char \<Rightarrow> bool" where
  "ident_start c \<longleftrightarrow>
     (let n = (of_char c :: nat)
      in (65 \<le> n \<and> n \<le> 90) \<or> (97 \<le> n \<and> n \<le> 122) \<or> n = 95 \<or> 128 \<le> n)"

definition ident_char :: "char \<Rightarrow> bool" where
  "ident_char c \<longleftrightarrow>
     ident_start c \<or> (let n = (of_char c :: nat) in (48 \<le> n \<and> n \<le> 57) \<or> n = 36)"

definition plain_name :: "string \<Rightarrow> bool" where
  "plain_name t \<longleftrightarrow> t \<noteq> [] \<and> ident_start (hd t) \<and> list_all ident_char t"

definition split_name :: "string \<Rightarrow> (string \<times> string) option" where
  "split_name s =
     (let t = takeWhile ident_char s
      in if t \<noteq> [] \<and> ident_start (hd t) then Some (t, dropWhile ident_char s) else None)"

text \<open>
  The driver's reading of a statement text: the statements this file sends, and what is
  left of them when the buffer cuts them short and the rest is a statement still. A
  DELETE cut after the table name, or inside it, deletes every row of the table it then
  names; cut after the column name it deletes the rows whose key reads as a true
  condition. A SELECT cut inside the table name reads the table it then names. An
  INSERT that is cut is no statement. Any other text is refused by prepare.
\<close>

definition sql_parse :: "string \<Rightarrow> sql_cmd option" where
  "sql_parse s =
     (if s = ''BEGIN TRANSACTION'' then Some SQL_BEGIN
      else if s = ''COMMIT'' then Some SQL_COMMIT
      else if s = catalog_sql then Some SQL_CATALOG
      else (case strip_prefix ''INSERT INTO '' s of
              Some rest \<Rightarrow>
                (case split_name rest of
                   None \<Rightarrow> None
                 | Some (t, tail) \<Rightarrow>
                     if tail = '' (priority,unique_key,function_name,data) VALUES (?,?,?,?)''
                     then Some (SQL_INSERT t) else None)
            | None \<Rightarrow>
          (case strip_prefix ''DELETE FROM '' s of
              Some rest \<Rightarrow>
                (case split_name rest of
                   None \<Rightarrow> None
                 | Some (t, tail) \<Rightarrow>
                     if tail = '' WHERE unique_key=?'' then Some (SQL_DELETE t)
                     else if tail = '' WHERE unique_key'' then Some (SQL_DELETE_TRUE t)
                     else if tail = [] \<or> tail = '' '' then Some (SQL_DELETE_ALL t)
                     else None)
            | None \<Rightarrow>
          (case strip_prefix ''SELECT unique_key,function_name,priority,data FROM '' s of
              Some rest \<Rightarrow>
                (case split_name rest of
                   None \<Rightarrow> None
                 | Some (t, tail) \<Rightarrow> if tail = [] then Some (SQL_SELECT t) else None)
            | None \<Rightarrow>
          (case strip_prefix ''CREATE TABLE '' s of
              Some rest \<Rightarrow>
                (case split_name rest of
                   None \<Rightarrow> None
                 | Some (t, tail) \<Rightarrow>
                     if tail = ''(unique_key TEXT PRIMARY KEY,function_name TEXT,priority INTEGER,data BLOB)''
                     then Some (SQL_CREATE t) else None)
            | None \<Rightarrow> None)))))"

text \<open>Table names are matched without regard to ASCII case, as the driver does.\<close>

fun table_rows :: "(string \<times> queue_row list) list \<Rightarrow> string \<Rightarrow> queue_row list option" where
  "table_rows [] t = None"
| "table_rows ((n, rs) # cs) t = (if strcasecmp_eq n t then Some rs else table_rows cs t)"

fun update_rows ::
  "(queue_row list \<Rightarrow> queue_row list) \<Rightarrow> string \<Rightarrow> (string \<times> queue_row list) list
     \<Rightarrow> (string \<times> queue_row list) list" where
  "update_rows f t [] = []"
| "update_rows f t ((n, rs) # cs) =
     (if strcasecmp_eq n t then (n, f rs) # cs else (n, rs) # update_rows f t cs)"

definition next_fault :: "sqlite3 \<Rightarrow> int \<times> sqlite3" where
  "next_fault c =
     (case faults c of
        [] \<Rightarrow> (SQLITE_OK, c)
      | f # fs \<Rightarrow> (f, c\<lparr>faults := fs\<rparr>))"

definition new_stmt :: "sql_cmd \<Rightarrow> sqlite3_stmt" where
  "new_stmt cmd =
     \<lparr>stmt_cmd = cmd, stmt_params = Map.empty, stmt_cursor = 0, stmt_rc = SQLITE_OK,
      stmt_row = None, stmt_name = None\<rparr>"

definition prepare_ok :: "sql_cmd \<Rightarrow> sqlite3 \<Rightarrow> bool" where
  "prepare_ok cmd c =
     (case cmd of
        SQL_CREATE t \<Rightarrow> table_rows (catalog c) t = None
      | SQL_INSERT t \<Rightarrow> table_rows (catalog c) t \<noteq> None
      | SQL_DELETE t \<Rightarrow> table_rows (catalog c) t \<noteq> None
      | SQL_DELETE_TRUE t \<Rightarrow> table_rows (catalog c) t \<noteq> None
      | SQL_DELETE_ALL t \<Rightarrow> table_rows (catalog c) t \<noteq> None
      | SQL_SELECT t \<Rightarrow> table_rows (catalog c) t \<noteq> None
      | _ \<Rightarrow> True)"

text \<open>
  \<^verbatim>\<open>sqlite3_prepare(db, zSql, nByte, &stmt, NULL)\<close>: a null connection or text is a
  misuse; the text runs to its terminator, or to \<open>nByte\<close> bytes when \<open>nByte\<close> is not
  negative and that comes first; on any failure the statement handle is null.
\<close>

definition sqlite3_prepare ::
  "sqlite3 option \<Rightarrow> string option \<Rightarrow> int \<Rightarrow> int \<times> sqlite3_stmt option \<times> sqlite3 option" where
  "sqlite3_prepare dbc zSql nByte =
     (case dbc of
        None \<Rightarrow> (SQLITE_MISUSE, None, None)
      | Some c \<Rightarrow>
          (case zSql of
             None \<Rightarrow> (SQLITE_MISUSE, None, Some c)
           | Some s \<Rightarrow>
               (let text = (if nByte < 0 then s else take (nat nByte) s);
                    (f, c1) = next_fault (c\<lparr>trace := trace c @ [text]\<rparr>)
                in if is_error f then (f, None, Some c1)
                   else (case sql_parse text of
                           None \<Rightarrow> (SQLITE_ERROR, None, Some c1)
                         | Some cmd \<Rightarrow>
                             if prepare_ok cmd c1 then (SQLITE_OK, Some (new_stmt cmd), Some c1)
                             else (SQLITE_ERROR, None, Some c1)))))"

text \<open>
  The bind calls; the file ignores their result, so a value bound to a parameter that a
  cut statement no longer has is lost without notice. Text and blobs are bound with
  their byte count, so every byte is kept, a zero byte included.
\<close>

definition sqlite3_bind :: "sqlite3_stmt option \<Rightarrow> nat \<Rightarrow> sql_value \<Rightarrow> sqlite3_stmt option" where
  "sqlite3_bind sth i v =
     map_option (\<lambda>s. s\<lparr>stmt_params := (stmt_params s)(i \<mapsto> v)\<rparr>) sth"

definition sqlite3_bind_int ::
  "sqlite3_stmt option \<Rightarrow> nat \<Rightarrow> gearman_job_priority_t \<Rightarrow> sqlite3_stmt option" where
  "sqlite3_bind_int sth i v = sqlite3_bind sth i (SQL_INTEGER (scast v))"

definition sqlite3_bind_text :: "sqlite3_stmt option \<Rightarrow> nat \<Rightarrow> bytes \<Rightarrow> sqlite3_stmt option" where
  "sqlite3_bind_text sth i bs = sqlite3_bind sth i (SQL_TEXT bs)"

definition sqlite3_bind_blob :: "sqlite3_stmt option \<Rightarrow> nat \<Rightarrow> bytes \<Rightarrow> sqlite3_stmt option" where
  "sqlite3_bind_blob sth i bs = sqlite3_bind sth i (SQL_BLOB bs)"

text \<open>What one step of a prepared statement does to the connection.\<close>

definition exec_step :: "sqlite3_stmt \<Rightarrow> sqlite3 \<Rightarrow> int \<times> sqlite3_stmt \<times> sqlite3" where
  "exec_step s c =
     (case stmt_cmd s of
        SQL_BEGIN \<Rightarrow>
          if in_txn c then (SQLITE_ERROR, s, c) else (SQLITE_DONE, s, c\<lparr>in_txn := True\<rparr>)
      | SQL_COMMIT \<Rightarrow>
          if in_txn c then (SQLITE_DONE, s, c\<lparr>in_txn := False\<rparr>) else (SQLITE_ERROR, s, c)
      | SQL_CATALOG \<Rightarrow>
          if stmt_cursor s < length (catalog c)
          then (SQLITE_ROW,
                s\<lparr>stmt_cursor := stmt_cursor s + 1,
                  stmt_name := Some (fst (catalog c ! stmt_cursor s))\<rparr>, c)
          else (SQLITE_DONE, s\<lparr>stmt_name := None\<rparr>, c)
      | SQL_CREATE t \<Rightarrow>
          if table_rows (catalog c) t = None
          then (SQLITE_DONE, s, c\<lparr>catalog := catalog c @ [(t, [])]\<rparr>)
          else (SQLITE_ERROR, s, c)
      | SQL_INSERT t \<Rightarrow>
          (case (table_rows (catalog c) t,
                 stmt_params s 1, stmt_params s 2, stmt_params s 3, stmt_params s 4) of
             (Some rs, Some (SQL_INTEGER p), Some (SQL_TEXT u), Some (SQL_TEXT f),
              Some (SQL_BLOB d)) \<Rightarrow>
               if u \<in> row_unique_key ` set rs then (SQLITE_CONSTRAINT, s, c)
               else (SQLITE_DONE, s,
                     c\<lparr>catalog :=
                         update_rows
                           (\<lambda>rs. rs @ [\<lparr>row_unique_key = u, row_function_name = f,
                                        row_priority = p, row_data = d\<rparr>])
                           t (catalog c)\<rparr>)
           | (None, _) \<Rightarrow> (SQLITE_ERROR, s, c)
           | _ \<Rightarrow> (SQLITE_MISMATCH, s, c))
      | SQL_DELETE t \<Rightarrow>
          (case (table_rows (catalog c) t, stmt_params s 1) of
             (Some rs, Some (SQL_TEXT u)) \<Rightarrow>
               (SQLITE_DONE, s,
                c\<lparr>catalog := update_rows (filter (\<lambda>r. row_unique_key r \<noteq> u)) t (catalog c)\<rparr>)
           | (None, _) \<Rightarrow> (SQLITE_ERROR, s, c)
           | _ \<Rightarrow> (SQLITE_MISMATCH, s, c))
      | SQL_DELETE_TRUE t \<Rightarrow>
          (case table_rows (catalog c) t of
             None \<Rightarrow> (SQLITE_ERROR, s, c)
           | Some rs \<Rightarrow>
               (SQLITE_DONE, s,
                c\<lparr>catalog :=
                    update_rows (filter (\<lambda>r. \<not> text_true c (row_unique_key r))) t (catalog c)\<rparr>))
      | SQL_DELETE_ALL t \<Rightarrow>
          (case table_rows (catalog c) t of
             None \<Rightarrow> (SQLITE_ERROR, s, c)
           | Some rs \<Rightarrow> (SQLITE_DONE, s, c\<lparr>catalog := update_rows (\<lambda>rs. []) t (catalog c)\<rparr>))
      | SQL_SELECT t \<Rightarrow>
          (case table_rows (catalog c) t of
             None \<Rightarrow> (SQLITE_ERROR, s, c)
           | Some rs \<Rightarrow>
               if stmt_cursor s < length (scan_order c rs)
               then (SQLITE_ROW,
                     s\<lparr>stmt_cursor := stmt_cursor s + 1,
                       stmt_row := Some (scan_order c rs ! stmt_cursor s)\<rparr>, c)
               else (SQLITE_DONE, s\<lparr>stmt_row := None\<rparr>, c)))"

text \<open>
  \<^verbatim>\<open>sqlite3_step(stmt)\<close>: a null statement is a misuse; the script may make the step
  fail; the statement remembers its last result code for \<^verbatim>\<open>sqlite3_finalize\<close>.
\<close>

definition sqlite3_step ::
  "sqlite3_stmt option \<Rightarrow> sqlite3 option \<Rightarrow> int \<times> sqlite3_stmt option \<times> sqlite3 option" where
  "sqlite3_step sth dbc =
     (case (sth, dbc) of
        (Some s, Some c) \<Rightarrow>
          (let (f, c1) = next_fault c
           in if is_error f then (f, Some (s\<lparr>stmt_rc := f\<rparr>), Some c1)
              else (case exec_step s c1 of
                      (rc, s', c') \<Rightarrow> (rc, Some (s'\<lparr>stmt_rc := rc\<rparr>), Some c')))
      | _ \<Rightarrow> (SQLITE_MISUSE, sth, dbc))"

definition sqlite3_finalize :: "sqlite3_stmt option \<Rightarrow> int" where
  "sqlite3_finalize sth =
     (case sth of
        None \<Rightarrow> SQLITE_OK
      | Some s \<Rightarrow> if is_error (stmt_rc s) then stmt_rc s else SQLITE_OK)"

text \<open>
  The columns of the current row of a SELECT over the queue table. Without a current
  row the driver answers with null pointers and zeros.
\<close>

definition sqlite3_column_row :: "sqlite3_stmt option \<Rightarrow> queue_row" where
  "sqlite3_column_row sth =
     (case sth of
        Some s \<Rightarrow>
          (case stmt_row s of
             Some r \<Rightarrow> r
           | None \<Rightarrow> \<lparr>row_unique_key = [], row_function_name = [], row_priority = 0,
                       row_data = []\<rparr>)
      | None \<Rightarrow> \<lparr>row_unique_key = [], row_function_name = [], row_priority = 0,
                  row_data = []\<rparr>)"

text \<open>The name column of the current row of the catalogue query.\<close>

definition sqlite3_column_name :: "sqlite3_stmt option \<Rightarrow> string option" where
  "sqlite3_column_name sth = (case sth of Some s \<Rightarrow> stmt_name s | None \<Rightarrow> None)"

section \<open>The queue handle and its private functions\<close>

text \<open>
  \<^verbatim>\<open>gearman_queue_sqlite_st\<close>. The connection pointer and the query buffer pointer can
  be null (\<open>None\<close>); the buffer is kept as the C string it holds. \<^verbatim>\<open>in_trans\<close> is an
  \<^verbatim>\<open>int\<close>; the only arithmetic on it is the increment from 0 in \<^verbatim>\<open>_sqlite_lock\<close>.
  The functions whose C names start with an underscore keep their names without it.
  The logging macros (\<^verbatim>\<open>GEARMAN_ERROR_SET\<close> and the like) change nothing the
  functions return or store, and are left out.
\<close>

record gearman_queue_sqlite_st =
  db :: "sqlite3 option"
  table :: string
  query :: "string option"
  query_size :: nat
  in_trans :: int

definition sqlite_query ::
  "gearman_queue_sqlite_st \<Rightarrow> string option \<Rightarrow> nat
     \<Rightarrow> int \<times> sqlite3_stmt option \<times> gearman_queue_sqlite_st" where
  "sqlite_query queue text nbytes =
     (case sqlite3_prepare (db queue) text (size_t_to_int nbytes) of
        (ret, sth, dbc) \<Rightarrow>
          if ret \<noteq> SQLITE_OK then (ret, None, queue\<lparr>db := dbc\<rparr>)
          else (ret, sth, queue\<lparr>db := dbc\<rparr>))"

definition sqlite_lock :: "gearman_queue_sqlite_st \<Rightarrow> int \<times> gearman_queue_sqlite_st" where
  "sqlite_lock queue =
     (if in_trans queue \<noteq> 0 then (SQLITE_OK, queue)
      else (case sqlite_query queue (Some ''BEGIN TRANSACTION'') SIZE_MAX of
              (ret, sth, queue1) \<Rightarrow>
                if ret \<noteq> SQLITE_OK then (ret, queue1)
                else (case sqlite3_step sth (db queue1) of
                        (ret2, sth2, dbc) \<Rightarrow>
                          if ret2 \<noteq> SQLITE_DONE then (ret2, queue1\<lparr>db := dbc\<rparr>)
                          else (SQLITE_OK,
                                queue1\<lparr>db := dbc, in_trans := in_trans queue1 + 1\<rparr>))))"

definition sqlite_commit :: "gearman_queue_sqlite_st \<Rightarrow> int \<times> gearman_queue_sqlite_st" where
  "sqlite_commit queue =
     (if in_trans queue = 0 then (SQLITE_OK, queue)
      else (case sqlite_query queue (Some ''COMMIT'') SIZE_MAX of
              (ret, sth, queue1) \<Rightarrow>
                if ret \<noteq> SQLITE_OK then (ret, queue1)
                else (case sqlite3_step sth (db queue1) of
                        (ret2, sth2, dbc) \<Rightarrow>
                          if ret2 \<noteq> SQLITE_DONE then (ret2, queue1\<lparr>db := dbc\<rparr>)
                          else (SQLITE_OK, queue1\<lparr>db := dbc, in_trans := 0\<rparr>))))"

text \<open>
  The resize block that \<^verbatim>\<open>_sqlite_add\<close>, \<^verbatim>\<open>_sqlite_done\<close> and \<^verbatim>\<open>_sqlite_replay\<close>
  each spell out: \<^verbatim>\<open>realloc\<close> only when the size asked for exceeds the recorded one;
  \<open>None\<close> when \<^verbatim>\<open>realloc\<close> returns null. Whether an allocation of a given size
  succeeds is the allocator's business: the parameter \<open>alloc_ok\<close>.
\<close>

definition realloc_query ::
  "(nat \<Rightarrow> bool) \<Rightarrow> gearman_queue_sqlite_st \<Rightarrow> nat \<Rightarrow> gearman_queue_sqlite_st option" where
  "realloc_query alloc_ok queue needed =
     (if needed > query_size queue
      then (if alloc_ok needed
            then Some (queue\<lparr>query := Some (case query queue of None \<Rightarrow> [] | Some s \<Rightarrow> s),
                             query_size := needed\<rparr>)
            else None)
      else Some queue)"

section \<open>The queue callbacks\<close>

text \<open>
  Each callback returns its status, or \<open>None\<close> where the C function would not return
  (a write through a null pointer), together with the handle as it leaves it.
\<close>

definition sqlite_add ::
  "(nat \<Rightarrow> bool) \<Rightarrow> gearman_queue_sqlite_st \<Rightarrow> bytes \<Rightarrow> bytes \<Rightarrow> bytes
     \<Rightarrow> gearman_job_priority_t \<Rightarrow> gearman_return_t option \<times> gearman_queue_sqlite_st" where
  "sqlite_add alloc_ok queue0 unique function_name data priority =
     (case sqlite_lock queue0 of
        (lrc, queue) \<Rightarrow>
          if lrc \<noteq> SQLITE_OK then (Some GEARMAN_QUEUE_ERROR, queue)
          else
            (let needed =
                   ((length unique + length function_name + length data) * 2
                      + GEARMAN_QUEUE_QUERY_BUFFER) mod SIZE_MODULUS
             in case realloc_query alloc_ok queue needed of
                  None \<Rightarrow> (Some GEARMAN_MEMORY_ALLOCATION_FAILURE, queue)
                | Some queue1 \<Rightarrow>
                    (case snprintf (query queue1) needed (insert_sql (table queue1)) of
                       None \<Rightarrow> (None, queue1)
                     | Some (buf, n) \<Rightarrow>
                         (case sqlite_query (queue1\<lparr>query := buf\<rparr>) buf n of
                            (rc, sth, queue2) \<Rightarrow>
                              if rc \<noteq> SQLITE_OK then (Some GEARMAN_QUEUE_ERROR, queue2)
                              else
                                (let sth1 = sqlite3_bind_int sth 1 priority;
                                     sth2 = sqlite3_bind_text sth1 2 unique;
                                     sth3 = sqlite3_bind_text sth2 3 function_name;
                                     sth4 = sqlite3_bind_blob sth3 4 data
                                 in case sqlite3_step sth4 (db queue2) of
                                      (src, sth5, dbc) \<Rightarrow>
                                        if src \<noteq> SQLITE_DONE
                                        then (Some GEARMAN_QUEUE_ERROR, queue2\<lparr>db := dbc\<rparr>)
                                        else (case sqlite_commit (queue2\<lparr>db := dbc\<rparr>) of
                                                (crc, queue3) \<Rightarrow>
                                                  if crc \<noteq> SQLITE_OK
                                                  then (Some GEARMAN_QUEUE_ERROR, queue3)
                                                  else (Some GEARMAN_SUCCESS, queue3)))))))"

definition sqlite_flush ::
  "gearman_queue_sqlite_st \<Rightarrow> gearman_return_t option \<times> gearman_queue_sqlite_st" where
  "sqlite_flush queue = (Some GEARMAN_SUCCESS, queue)"

definition sqlite_done ::
  "(nat \<Rightarrow> bool) \<Rightarrow> gearman_queue_sqlite_st \<Rightarrow> bytes \<Rightarrow> bytes
     \<Rightarrow> gearman_return_t option \<times> gearman_queue_sqlite_st" where
  "sqlite_done alloc_ok queue0 unique function_name =
     (case sqlite_lock queue0 of
        (lrc, queue) \<Rightarrow>
          if lrc \<noteq> SQLITE_OK then (Some GEARMAN_QUEUE_ERROR, queue)
          else
            (let needed = (length unique * 2 + GEARMAN_QUEUE_QUERY_BUFFER) mod SIZE_MODULUS
             in case realloc_query alloc_ok queue needed of
                  None \<Rightarrow> (Some GEARMAN_MEMORY_ALLOCATION_FAILURE, queue)
                | Some queue1 \<Rightarrow>
                    (case snprintf (query queue1) needed (delete_sql (table queue1)) of
                       None \<Rightarrow> (None, queue1)
                     | Some (buf, n) \<Rightarrow>
                         (case sqlite_query (queue1\<lparr>query := buf\<rparr>) buf n of
                            (rc, sth, queue2) \<Rightarrow>
                              if rc \<noteq> SQLITE_OK then (Some GEARMAN_QUEUE_ERROR, queue2)
                              else
                                (let sth1 = sqlite3_bind_text sth 1 unique
                                 in case sqlite3_step sth1 (db queue2) of
                                      (src, sth2, dbc) \<Rightarrow>
                                        if src \<noteq> SQLITE_DONE
                                        then (Some GEARMAN_QUEUE_ERROR, queue2\<lparr>db := dbc\<rparr>)
                                        else (case sqlite_commit (queue2\<lparr>db := dbc\<rparr>) of
                                                (crc, queue3) \<Rightarrow>
                                                  if crc \<noteq> SQLITE_OK
                                                  then (Some GEARMAN_QUEUE_ERROR, queue3)
                                                  else (Some GEARMAN_SUCCESS, queue3)))))))"

text \<open>
  \<^verbatim>\<open>(double)sqlite3_column_int64(sth,2)\<close> assigned to the priority: the 64-bit integer
  goes through a double and into the 32-bit enum. The double keeps 53 significant bits:
  \<open>excess_bits\<close> counts the bits an integer has beyond them, and \<open>double_of_int64\<close>
  rounds these away, to the nearest and on a tie to the even neighbour. The conversion
  of the double to the enum is defined by C only for the values the enum's integer type
  holds; elsewhere the model gives what the conversion instruction of x86-64 leaves in
  the register, the low 32 bits.
\<close>

function excess_bits :: "nat \<Rightarrow> nat" where
  "excess_bits a = (if a < 2 ^ 53 then 0 else Suc (excess_bits (a div 2)))"
  by pat_completeness auto
termination
  by (relation "measure (\<lambda>a. a)") auto

declare excess_bits.simps [simp del]

definition double_of_int64 :: "int \<Rightarrow> int" where
  "double_of_int64 v =
     (let a = nat \<bar>v\<bar>;
          e = excess_bits a;
          q = a div 2 ^ e;
          r = a mod 2 ^ e;
          q' = (if 2 ^ e < 2 * r \<or> (2 * r = 2 ^ e \<and> odd q) then q + 1 else q)
      in sgn v * int (q' * 2 ^ e))"

definition priority_of_int64 :: "64 word \<Rightarrow> gearman_job_priority_t" where
  "priority_of_int64 v = word_of_int (double_of_int64 (sint v))"

text \<open>
  How many rows a statement still has to deliver: the measure of the two loops over
  \<^verbatim>\<open>sqlite3_step(sth) == SQLITE_ROW\<close>.
\<close>

definition remaining_rows :: "sqlite3_stmt option \<Rightarrow> sqlite3 option \<Rightarrow> nat" where
  "remaining_rows sth dbc =
     (case (sth, dbc) of
        (Some s, Some c) \<Rightarrow>
          (case stmt_cmd s of
             SQL_CATALOG \<Rightarrow> length (catalog c) - stmt_cursor s
           | SQL_SELECT t \<Rightarrow>
               (case table_rows (catalog c) t of
                  None \<Rightarrow> 0
                | Some rs \<Rightarrow> length (scan_order c rs) - stmt_cursor s)
           | _ \<Rightarrow> 0)
      | _ \<Rightarrow> 0)"

lemma next_fault_keeps:
  "next_fault c = (f, c1) \<Longrightarrow>
     catalog c1 = catalog c \<and> scan_order c1 = scan_order c \<and> in_txn c1 = in_txn c
       \<and> trace c1 = trace c"
  by (auto simp: next_fault_def split: list.splits)

lemma exec_step_row:
  "exec_step s c = (SQLITE_ROW, s', c') \<Longrightarrow>
     c' = c \<and> stmt_cmd s' = stmt_cmd s \<and> stmt_cursor s' = stmt_cursor s + 1
       \<and> remaining_rows (Some s) (Some c) > 0"
  by (auto simp: exec_step_def remaining_rows_def
           split: sql_cmd.splits if_splits option.splits sql_value.splits)

lemma sqlite3_step_row:
  assumes "sqlite3_step sth dbc = (SQLITE_ROW, sth', dbc')"
  shows "remaining_rows sth' dbc' < remaining_rows sth dbc"
proof -
  from assms obtain s c where sc: "sth = Some s" "dbc = Some c"
    by (auto simp: sqlite3_step_def split: option.splits)
  obtain f c1 where nf: "next_fault c = (f, c1)"
    by (cases "next_fault c")
  obtain rc s1 c2 where ex: "exec_step s c1 = (rc, s1, c2)"
    by (cases "exec_step s c1")
  from assms sc nf ex have noerr: "\<not> is_error f"
    by (auto simp: sqlite3_step_def is_error_def split: if_splits)
  with assms sc nf ex have eqs: "rc = SQLITE_ROW" "sth' = Some (s1\<lparr>stmt_rc := rc\<rparr>)" "dbc' = Some c2"
    by (auto simp: sqlite3_step_def)
  from ex eqs(1) have st: "c2 = c1" "stmt_cmd s1 = stmt_cmd s" "stmt_cursor s1 = stmt_cursor s + 1"
    "remaining_rows (Some s) (Some c1) > 0"
    using exec_step_row by blast+
  from next_fault_keeps [OF nf] have keep: "catalog c1 = catalog c" "scan_order c1 = scan_order c"
    by simp_all
  from st keep eqs sc show ?thesis
    by (auto simp: remaining_rows_def split: sql_cmd.splits option.splits)
qed

text \<open>
  The loop of \<^verbatim>\<open>_sqlite_replay\<close>. Each row's payload is copied into a fresh
  \<^verbatim>\<open>malloc\<close> block whose pointer is not checked: when the allocation of a non-empty
  payload fails, the copy writes through a null pointer. The callback \<^verbatim>\<open>add_fn\<close> is
  the server's; it works on a context of its own and returns a status.
\<close>

function replay_rows ::
  "(nat \<Rightarrow> bool)
     \<Rightarrow> ('c \<Rightarrow> bytes \<Rightarrow> bytes \<Rightarrow> bytes \<Rightarrow> gearman_job_priority_t \<Rightarrow> gearman_return_t \<times> 'c)
     \<Rightarrow> 'c \<Rightarrow> sqlite3_stmt option \<Rightarrow> sqlite3 option
     \<Rightarrow> gearman_return_t option \<times> 'c \<times> sqlite3 option" where
  "replay_rows alloc_ok add_fn ctx sth dbc =
     (case sqlite3_step sth dbc of
        (rc, sth', dbc') \<Rightarrow>
          if rc = SQLITE_ROW then
            (let r = sqlite3_column_row sth';
                 data_size = length (row_data r)
             in if data_size > 0 \<and> \<not> alloc_ok data_size then (None, ctx, dbc')
                else (case add_fn ctx (row_unique_key r) (row_function_name r) (row_data r)
                             (priority_of_int64 (row_priority r)) of
                        (gret, ctx') \<Rightarrow>
                          if gret \<noteq> GEARMAN_SUCCESS then (Some gret, ctx', dbc')
                          else replay_rows alloc_ok add_fn ctx' sth' dbc'))
          else (Some GEARMAN_SUCCESS, ctx, dbc'))"
  by pat_completeness auto
termination
  by (relation "measure (\<lambda>(alloc_ok, add_fn, ctx, sth, dbc). remaining_rows sth dbc)")
     (auto dest: sqlite3_step_row [OF sym])

declare replay_rows.simps [simp del]

definition sqlite_replay ::
  "(nat \<Rightarrow> bool) \<Rightarrow> gearman_queue_sqlite_st
     \<Rightarrow> ('c \<Rightarrow> bytes \<Rightarrow> bytes \<Rightarrow> bytes \<Rightarrow> gearman_job_priority_t \<Rightarrow> gearman_return_t \<times> 'c)
     \<Rightarrow> 'c \<Rightarrow> gearman_return_t option \<times> 'c \<times> gearman_queue_sqlite_st" where
  "sqlite_replay alloc_ok queue add_fn add_fn_arg =
     (case realloc_query alloc_ok queue GEARMAN_QUEUE_QUERY_BUFFER of
        None \<Rightarrow> (Some GEARMAN_MEMORY_ALLOCATION_FAILURE, add_fn_arg, queue)
      | Some queue1 \<Rightarrow>
          (case snprintf (query queue1) GEARMAN_QUEUE_QUERY_BUFFER (select_sql (table queue1)) of
             None \<Rightarrow> (None, add_fn_arg, queue1)
           | Some (buf, n) \<Rightarrow>
               (case sqlite_query (queue1\<lparr>query := buf\<rparr>) buf n of
                  (rc, sth, queue2) \<Rightarrow>
                    if rc \<noteq> SQLITE_OK then (Some GEARMAN_QUEUE_ERROR, add_fn_arg, queue2)
                    else (case replay_rows alloc_ok add_fn add_fn_arg sth (db queue2) of
                            (gret, ctx, dbc) \<Rightarrow> (gret, ctx, queue2\<lparr>db := dbc\<rparr>)))))"

section \<open>Initialisation and shutdown\<close>

text \<open>
  Of \<^verbatim>\<open>gearman_st\<close> the file touches, through setters and a getter declared
  elsewhere, the queue context pointer (\<^verbatim>\<open>gearman_set_queue_fn_arg\<close>,
  \<^verbatim>\<open>gearman_queue_fn_arg\<close>) and the four queue callbacks, which it registers together.
  The handle is reachable from the server exactly as long as the pointer is set.
\<close>

record gearman_st =
  queue_fn_arg :: "gearman_queue_sqlite_st option"
  queue_callbacks :: bool

text \<open>
  Modelled from the spec: the configuration (\<^verbatim>\<open>gearman_conf_st\<close>, declared in
  \<^verbatim>\<open>libgearman/conf.h\<close>) gives each module its options as name and value pairs, in
  the order given; \<^verbatim>\<open>gearman_conf_module_find\<close> answers null for an unknown module
  and \<^verbatim>\<open>gearman_conf_module_value\<close> walks the pairs.
\<close>

type_synonym gearman_conf_st = "(string \<times> (string \<times> string) list) list"

definition gearman_conf_module_find ::
  "gearman_conf_st \<Rightarrow> string \<Rightarrow> (string \<times> string) list option" where
  "gearman_conf_module_find conf name = map_of conf name"

text \<open>The size of the handle on an LP64 machine, as \<^verbatim>\<open>malloc\<close> is asked for it.\<close>

definition sizeof_gearman_queue_sqlite_st :: nat where
  "sizeof_gearman_queue_sqlite_st = 288"

text \<open>
  \<^verbatim>\<open>gearman_queue_libsqlite3_deinit\<close>: clears the pointer, closes the connection and
  frees the handle, so that nothing of the handle is left. It reads the handle through
  the pointer without a check: with the pointer null it does not return.
\<close>

definition gearman_queue_libsqlite3_deinit ::
  "gearman_st \<Rightarrow> (gearman_return_t \<times> gearman_st) option" where
  "gearman_queue_libsqlite3_deinit gearman =
     (case queue_fn_arg gearman of
        None \<Rightarrow> None
      | Some queue \<Rightarrow> Some (GEARMAN_SUCCESS, gearman\<lparr>queue_fn_arg := None\<rparr>))"

text \<open>
  The two lines \<^verbatim>\<open>gearman_queue_libsqlite3_deinit(gearman); return GEARMAN_QUEUE_ERROR;\<close>
  that end most failure branches of the initialisation.
\<close>

definition deinit_and_fail :: "gearman_st \<Rightarrow> (gearman_return_t \<times> gearman_st) option" where
  "deinit_and_fail gearman =
     (case gearman_queue_libsqlite3_deinit gearman of
        None \<Rightarrow> None
      | Some (r, gearman') \<Rightarrow> Some (GEARMAN_QUEUE_ERROR, gearman'))"

text \<open>
  The loop over the module's options, up to the point where it ends or leaves the
  function. The table name is copied with
  \<^verbatim>\<open>snprintf(queue->table, SQLITE_MAX_TABLE_SIZE, "%s", value)\<close>. An option that is
  neither \<^verbatim>\<open>db\<close> nor \<^verbatim>\<open>table\<close> ends in a shutdown and \<^verbatim>\<open>GEARMAN_QUEUE_ERROR\<close>.
  A database that does not open ends in a shutdown too, after which the branch reads
  \<^verbatim>\<open>queue->db\<close> from the handle just freed and frees the handle a second time: the
  call does not return.
\<close>

datatype conf_result =
    Conf_done gearman_queue_sqlite_st
  | Conf_open_failed
  | Conf_unknown gearman_queue_sqlite_st

fun conf_values ::
  "(string \<Rightarrow> int \<times> sqlite3 option) \<Rightarrow> (string \<times> string) list \<Rightarrow> gearman_queue_sqlite_st
     \<Rightarrow> conf_result" where
  "conf_values sqlite3_open [] queue = Conf_done queue"
| "conf_values sqlite3_open ((name, val) # rest) queue =
     (if name = ''db'' then
        (case sqlite3_open val of
           (rc, dbc) \<Rightarrow>
             if rc \<noteq> SQLITE_OK then Conf_open_failed
             else conf_values sqlite3_open rest (queue\<lparr>db := dbc\<rparr>))
      else if name = ''table'' then
        conf_values sqlite3_open rest (queue\<lparr>table := take (SQLITE_MAX_TABLE_SIZE - 1) val\<rparr>)
      else Conf_unknown queue)"

text \<open>
  The scan of the catalogue: \<^verbatim>\<open>table\<close> is assigned the name of every row visited,
  and the loop breaks at the first name equal to the configured one without regard to
  case. The driver gives a name with every row.
\<close>

function catalog_loop ::
  "string \<Rightarrow> sqlite3_stmt option \<Rightarrow> sqlite3 option \<Rightarrow> string option
     \<Rightarrow> string option \<times> sqlite3_stmt option \<times> sqlite3 option" where
  "catalog_loop qtable sth dbc tbl =
     (case sqlite3_step sth dbc of
        (rc, sth', dbc') \<Rightarrow>
          if rc = SQLITE_ROW then
            (let tbl' = sqlite3_column_name sth'
             in if (case tbl' of None \<Rightarrow> False | Some t \<Rightarrow> strcasecmp_eq qtable t)
                then (tbl', sth', dbc')
                else catalog_loop qtable sth' dbc' tbl')
          else (tbl, sth', dbc'))"
  by pat_completeness auto
termination
  by (relation "measure (\<lambda>(qtable, sth, dbc, tbl). remaining_rows sth dbc)")
     (auto dest: sqlite3_step_row [OF sym])

declare catalog_loop.simps [simp del]

text \<open>The block under \<^verbatim>\<open>if (table == NULL)\<close>: create the table.\<close>

definition init_create ::
  "gearman_st \<Rightarrow> gearman_queue_sqlite_st \<Rightarrow> (gearman_return_t \<times> gearman_st) option" where
  "init_create gearman queue =
     (case snprintf (Some []) 1024 (create_sql (table queue)) of
        None \<Rightarrow> None
      | Some (create, n) \<Rightarrow>
          (case sqlite_query queue create (length (case create of None \<Rightarrow> [] | Some s \<Rightarrow> s)) of
             (rc, sth, queue1) \<Rightarrow>
               if rc \<noteq> SQLITE_OK
               then deinit_and_fail (gearman\<lparr>queue_fn_arg := Some queue1\<rparr>)
               else (case sqlite3_step sth (db queue1) of
                       (src, sth', dbc) \<Rightarrow>
                         if src \<noteq> SQLITE_DONE
                         then Some (GEARMAN_QUEUE_ERROR,
                                    gearman\<lparr>queue_fn_arg := Some (queue1\<lparr>db := dbc\<rparr>)\<rparr>)
                         else if sqlite3_finalize sth' \<noteq> SQLITE_OK
                         then deinit_and_fail
                                (gearman\<lparr>queue_fn_arg := Some (queue1\<lparr>db := dbc\<rparr>)\<rparr>)
                         else Some (GEARMAN_SUCCESS,
                                    gearman\<lparr>queue_fn_arg := Some (queue1\<lparr>db := dbc\<rparr>),
                                            queue_callbacks := True\<rparr>))))"

text \<open>
  \<^verbatim>\<open>gearman_queue_libsqlite3_init\<close>. The handle starts zeroed, with the default
  table name. \<open>sqlite3_open\<close> is the driver's answer to opening a path. The local
  pointer \<^verbatim>\<open>queue\<close> and the pointer registered in \<^verbatim>\<open>gearman_st\<close> name the same
  handle: wherever the function returns with the pointer still registered, the server
  is left holding the handle as it is at that moment.
\<close>

definition gearman_queue_libsqlite3_init ::
  "(nat \<Rightarrow> bool) \<Rightarrow> (string \<Rightarrow> int \<times> sqlite3 option) \<Rightarrow> gearman_st \<Rightarrow> gearman_conf_st
     \<Rightarrow> (gearman_return_t \<times> gearman_st) option" where
  "gearman_queue_libsqlite3_init alloc_ok sqlite3_open gearman conf =
     (if \<not> alloc_ok sizeof_gearman_queue_sqlite_st
      then Some (GEARMAN_MEMORY_ALLOCATION_FAILURE, gearman)
      else
        (let queue = \<lparr>db = None,
                      table = take (SQLITE_MAX_TABLE_SIZE - 1) GEARMAN_QUEUE_SQLITE_DEFAULT_TABLE,
                      query = None, query_size = 0, in_trans = 0\<rparr>
         in case gearman_conf_module_find conf ''libsqlite3'' of
              None \<Rightarrow> Some (GEARMAN_QUEUE_ERROR, gearman)
            | Some module \<Rightarrow>
                (case conf_values sqlite3_open module queue of
                   Conf_open_failed \<Rightarrow> None
                 | Conf_unknown queue1 \<Rightarrow>
                     deinit_and_fail (gearman\<lparr>queue_fn_arg := Some queue1\<rparr>)
                 | Conf_done queue1 \<Rightarrow>
                     if db queue1 = None
                     then deinit_and_fail (gearman\<lparr>queue_fn_arg := Some queue1\<rparr>)
                     else
                       (case sqlite_query queue1 (Some catalog_sql) SIZE_MAX of
                          (rc, sth, queue2) \<Rightarrow>
                            if rc \<noteq> SQLITE_OK
                            then deinit_and_fail (gearman\<lparr>queue_fn_arg := Some queue2\<rparr>)
                            else
                              (case catalog_loop (table queue2) sth (db queue2) None of
                                 (tbl, sth', dbc) \<Rightarrow>
                                   if sqlite3_finalize sth' \<noteq> SQLITE_OK
                                   then deinit_and_fail
                                          (gearman\<lparr>queue_fn_arg := Some (queue2\<lparr>db := dbc\<rparr>)\<rparr>)
                                   else if tbl = None
                                   then init_create gearman (queue2\<lparr>db := dbc\<rparr>)
                                   else Some (GEARMAN_SUCCESS,
                                              gearman\<lparr>queue_fn_arg := Some (queue2\<lparr>db := dbc\<rparr>),
                                                      queue_callbacks := True\<rparr>))))))"

section \<open>Reading a handle\<close>

text \<open>
  What the properties below speak about: the rows stored in the configured table, the
  statements the connection has been asked to prepare, and a handle in working order
  (an open connection with nothing scripted to fail, the configured table present, the
  transaction flag in step with the connection, and a buffer pointer that is null only
  while the recorded capacity is 0, as the zeroed handle of the initialisation has it).
\<close>

definition stored_rows :: "gearman_queue_sqlite_st \<Rightarrow> queue_row list" where
  "stored_rows queue =
     (case db queue of
        None \<Rightarrow> []
      | Some c \<Rightarrow> (case table_rows (catalog c) (table queue) of None \<Rightarrow> [] | Some rs \<Rightarrow> rs))"

definition issued :: "gearman_queue_sqlite_st \<Rightarrow> string list" where
  "issued queue = (case db queue of None \<Rightarrow> [] | Some c \<Rightarrow> trace c)"

definition healthy :: "gearman_queue_sqlite_st \<Rightarrow> bool" where
  "healthy queue =
     (case db queue of
        None \<Rightarrow> False
      | Some c \<Rightarrow>
          faults c = [] \<and> table_rows (catalog c) (table queue) \<noteq> None
          \<and> (in_txn c \<longleftrightarrow> in_trans queue \<noteq> 0)
          \<and> (query queue = None \<longrightarrow> query_size queue = 0))"

text \<open>A job as the callbacks see it, the row \<^verbatim>\<open>_sqlite_add\<close> binds for it, and back.\<close>

type_synonym job = "bytes \<times> bytes \<times> bytes \<times> gearman_job_priority_t"

definition job_row :: "bytes \<Rightarrow> bytes \<Rightarrow> bytes \<Rightarrow> gearman_job_priority_t \<Rightarrow> queue_row" where
  "job_row u f d p =
     \<lparr>row_unique_key = u, row_function_name = f, row_priority = scast p, row_data = d\<rparr>"

definition row_job :: "queue_row \<Rightarrow> job" where
  "row_job r =
     (row_unique_key r, row_function_name r, row_data r, priority_of_int64 (row_priority r))"

text \<open>A replay callback that keeps every job it is given and reports success.\<close>

definition record_job ::
  "job list \<Rightarrow> bytes \<Rightarrow> bytes \<Rightarrow> bytes \<Rightarrow> gearman_job_priority_t
     \<Rightarrow> gearman_return_t \<times> job list" where
  "record_job ctx u f d p = (GEARMAN_SUCCESS, ctx @ [(u, f, d, p)])"

text \<open>Two allocators: one that never runs out, one that always does.\<close>

definition alloc_always :: "nat \<Rightarrow> bool" where
  "alloc_always n = True"

definition alloc_never :: "nat \<Rightarrow> bool" where
  "alloc_never n = False"

text \<open>
  A handle as the initialisation leaves it on a fresh store with the default table, and
  the same handle with a script of result codes for the driver's next calls. The driver
  of the examples scans a table backwards and reads as a true condition the keys that
  start with one of the digits 1 to 9.
\<close>

definition starts_nonzero :: "bytes \<Rightarrow> bool" where
  "starts_nonzero k \<longleftrightarrow> (case k of [] \<Rightarrow> False | b # bs \<Rightarrow> 0x31 \<le> b \<and> b \<le> 0x39)"

definition example_db :: sqlite3 where
  "example_db =
     \<lparr>catalog = [(''gearman_queue'', [])], scan_order = rev, text_true = starts_nonzero,
      in_txn = False, faults = [], trace = []\<rparr>"

definition example_queue :: gearman_queue_sqlite_st where
  "example_queue =
     \<lparr>db = Some example_db, table = ''gearman_queue'', query = None, query_size = 0,
      in_trans = 0\<rparr>"

definition with_faults :: "int list \<Rightarrow> gearman_queue_sqlite_st \<Rightarrow> gearman_queue_sqlite_st" where
  "with_faults fs queue = queue\<lparr>db := map_option (\<lambda>c. c\<lparr>faults := fs\<rparr>) (db queue)\<rparr>"

text \<open>The job of the scenario: \<^verbatim>\<open>add("job-1","reverse",HIGH,[0x00,0x01,0xFF])\<close>.\<close>

definition example_key :: bytes where
  "example_key = [0x6A, 0x6F, 0x62, 0x2D, 0x31]"

definition example_function :: bytes where
  "example_function = [0x72, 0x65, 0x76, 0x65, 0x72, 0x73, 0x65]"

definition example_payload :: bytes where
  "example_payload = [0x00, 0x01, 0xFF]"

text \<open>A handle whose table already holds two jobs.\<close>

definition example_rows :: "queue_row list" where
  "example_rows =
     [job_row example_key example_function example_payload GEARMAN_JOB_PRIORITY_HIGH,
      job_row [0x6A, 0x32] [0x77, 0x63] [] GEARMAN_JOB_PRIORITY_LOW]"

definition example_full_db :: sqlite3 where
  "example_full_db = example_db\<lparr>catalog := [(''gearman_queue'', example_rows)]\<rparr>"

definition example_full_queue :: gearman_queue_sqlite_st where
  "example_full_queue = example_queue\<lparr>db := Some example_full_db\<rparr>"

text \<open>
  The calls the server makes on a handle, one after the other: each comes with the
  allocator as it stands at that moment, a replay brings its callback, and the run ends
  where a call does not return. The sizes \<^verbatim>\<open>_sqlite_add\<close> and \<^verbatim>\<open>_sqlite_done\<close> ask
  the buffer to have are named for the statements below.
\<close>

datatype 'c queue_op =
    OpAdd bytes bytes bytes gearman_job_priority_t
  | OpDone bytes bytes
  | OpReplay "'c \<Rightarrow> bytes \<Rightarrow> bytes \<Rightarrow> bytes \<Rightarrow> gearman_job_priority_t \<Rightarrow> gearman_return_t \<times> 'c"

definition run_op ::
  "(nat \<Rightarrow> bool) \<Rightarrow> 'c queue_op \<Rightarrow> gearman_queue_sqlite_st \<times> 'c
     \<Rightarrow> gearman_return_t option \<times> gearman_queue_sqlite_st \<times> 'c" where
  "run_op alloc_ok op qc =
     (case op of
        OpAdd u f d p \<Rightarrow>
          (case sqlite_add alloc_ok (fst qc) u f d p of (r, queue') \<Rightarrow> (r, queue', snd qc))
      | OpDone u f \<Rightarrow>
          (case sqlite_done alloc_ok (fst qc) u f of (r, queue') \<Rightarrow> (r, queue', snd qc))
      | OpReplay add_fn \<Rightarrow>
          (case sqlite_replay alloc_ok (fst qc) add_fn (snd qc) of
             (r, ctx', queue') \<Rightarrow> (r, queue', ctx')))"

fun run_ops ::
  "((nat \<Rightarrow> bool) \<times> 'c queue_op) list \<Rightarrow> gearman_queue_sqlite_st \<times> 'c
     \<Rightarrow> gearman_queue_sqlite_st \<times> 'c" where
  "run_ops [] qc = qc"
| "run_ops ((alloc_ok, op) # rest) qc =
     (case run_op alloc_ok op qc of
        (None, queue', ctx') \<Rightarrow> (queue', ctx')
      | (Some r, queue', ctx') \<Rightarrow> run_ops rest (queue', ctx'))"

definition add_query_size :: "bytes \<Rightarrow> bytes \<Rightarrow> bytes \<Rightarrow> nat" where
  "add_query_size u f d =
     ((length u + length f + length d) * 2 + GEARMAN_QUEUE_QUERY_BUFFER) mod SIZE_MODULUS"

definition done_query_size :: "bytes \<Rightarrow> nat" where
  "done_query_size u = (length u * 2 + GEARMAN_QUEUE_QUERY_BUFFER) mod SIZE_MODULUS"

definition example_ops :: "((nat \<Rightarrow> bool) \<times> job list queue_op) list" where
  "example_ops =
     [(alloc_always,
       OpAdd example_key example_function example_payload GEARMAN_JOB_PRIORITY_HIGH),
      (alloc_always, OpReplay record_job),
      (alloc_never, OpDone example_key [])]"

text \<open>A statement that only reads: a null one, a SELECT or the catalogue query.\<close>

definition stmt_reads :: "sqlite3_stmt option \<Rightarrow> bool" where
  "stmt_reads sth =
     (case sth of
        None \<Rightarrow> True
      | Some s \<Rightarrow> (case stmt_cmd s of SQL_SELECT t \<Rightarrow> True | SQL_CATALOG \<Rightarrow> True | _ \<Rightarrow> False))"

text \<open>
  A replay callback wrapped so that every call is written down, the job it was given
  and the status it returned, beside the callback's own context; what it means for such
  a record to stop at the first failure; a callback that refuses one key and counts the
  jobs it accepts; and a handle whose table holds three jobs.
\<close>

type_synonym call_log = "(job \<times> gearman_return_t) list"

definition logged ::
  "('c \<Rightarrow> bytes \<Rightarrow> bytes \<Rightarrow> bytes \<Rightarrow> gearman_job_priority_t \<Rightarrow> gearman_return_t \<times> 'c)
     \<Rightarrow> 'c \<times> call_log \<Rightarrow> bytes \<Rightarrow> bytes \<Rightarrow> bytes \<Rightarrow> gearman_job_priority_t
     \<Rightarrow> gearman_return_t \<times> 'c \<times> call_log" where
  "logged add_fn cl u f d p =
     (case add_fn (fst cl) u f d p of
        (gret, ctx') \<Rightarrow> (gret, ctx', snd cl @ [((u, f, d, p), gret)]))"

definition log_ok :: "gearman_return_t option \<Rightarrow> call_log \<Rightarrow> bool" where
  "log_ok r new \<longleftrightarrow>
     (\<forall>e \<in> set (butlast new). snd e = GEARMAN_SUCCESS)
     \<and> (new \<noteq> [] \<and> snd (last new) \<noteq> GEARMAN_SUCCESS \<longrightarrow> r = Some (snd (last new)))"

definition refuse_key ::
  "bytes \<Rightarrow> nat \<Rightarrow> bytes \<Rightarrow> bytes \<Rightarrow> bytes \<Rightarrow> gearman_job_priority_t
     \<Rightarrow> gearman_return_t \<times> nat" where
  "refuse_key k ctx u f d p =
     (if u = k then (GEARMAN_RETURN_OTHER 25, ctx) else (GEARMAN_SUCCESS, ctx + 1))"

definition example_three_queue :: gearman_queue_sqlite_st where
  "example_three_queue =
     example_queue
       \<lparr>db := Some (example_db
          \<lparr>catalog :=
             [(''gearman_queue'',
               example_rows @ [job_row [0x6A, 0x33] [0x77, 0x63] [0x2A] GEARMAN_JOB_PRIORITY_NORMAL])]\<rparr>)\<rparr>"

text \<open>
  A table name of 205 bytes, within the 255 that \<^verbatim>\<open>queue->table\<close> holds; a store
  whose only table has that name; and a store that has, besides, a table named by the
  first 204 bytes of it.
\<close>

definition long_table :: string where
  "long_table = replicate 205 (CHR ''a'')"

definition example_long_queue :: gearman_queue_sqlite_st where
  "example_long_queue =
     \<lparr>db = Some (example_db\<lparr>catalog := [(long_table, example_rows)]\<rparr>),
      table = long_table, query = None, query_size = 0, in_trans = 0\<rparr>"

definition example_shadow_queue :: gearman_queue_sqlite_st where
  "example_shadow_queue =
     \<lparr>db = Some (example_db
        \<lparr>catalog :=
           [(long_table, example_rows),
            (take 204 long_table,
             [job_row [0x6A, 0x33] [0x77, 0x63] [0x2A] GEARMAN_JOB_PRIORITY_NORMAL])]\<rparr>),
      table = long_table, query = None, query_size = 0, in_trans = 0\<rparr>"

text \<open>
  Handles as the initialisation leaves them on a fresh store when the configuration
  names a table of 205 bytes, and one of the full 255 bytes; a payload of 40 bytes; and
  the second handle after the job of the scenario has been added with that payload.
\<close>

definition example_long_fresh_queue :: gearman_queue_sqlite_st where
  "example_long_fresh_queue =
     \<lparr>db = Some (example_db\<lparr>catalog := [(long_table, [])]\<rparr>),
      table = long_table, query = None, query_size = 0, in_trans = 0\<rparr>"

definition longest_table :: string where
  "longest_table = replicate 255 (CHR ''a'')"

definition example_longest_queue :: gearman_queue_sqlite_st where
  "example_longest_queue =
     \<lparr>db = Some (example_db\<lparr>catalog := [(longest_table, [])]\<rparr>),
      table = longest_table, query = None, query_size = 0, in_trans = 0\<rparr>"

definition long_payload :: bytes where
  "long_payload = replicate 40 0x2A"

definition example_longest_stored_queue :: gearman_queue_sqlite_st where
  "example_longest_stored_queue =
     \<lparr>db = Some (example_db
             \<lparr>catalog :=
                [(longest_table,
                  [job_row example_key example_function long_payload GEARMAN_JOB_PRIORITY_HIGH])],
               trace := [''BEGIN TRANSACTION'', insert_sql longest_table, ''COMMIT'']\<rparr>),
      table = longest_table, query = Some (insert_sql longest_table), query_size = 360,
      in_trans = 0\<rparr>"

text \<open>
  A server with no queue registered, a configuration that names only the database
  file, and a driver that opens an empty database and then answers its calls from
  the given script.
\<close>

definition fresh_gearman :: gearman_st where
  "fresh_gearman = \<lparr>queue_fn_arg = None, queue_callbacks = False\<rparr>"

definition example_conf :: gearman_conf_st where
  "example_conf = [(''libsqlite3'', [(''db'', ''queue.db'')])]"

definition open_with_faults :: "int list \<Rightarrow> string \<Rightarrow> int \<times> sqlite3 option" where
  "open_with_faults fs path =
     (SQLITE_OK,
      Some \<lparr>catalog = [], scan_order = rev, text_true = starts_nonzero, in_txn = False,
            faults = fs, trace = []\<rparr>)"

lemmas driver_defs =
  sqlite3_prepare_def sqlite3_step_def exec_step_def next_fault_def is_error_def sql_parse_def
  split_name_def ident_char_def ident_start_def prepare_ok_def new_stmt_def sqlite3_bind_def sqlite3_bind_int_def
  sqlite3_bind_text_def sqlite3_bind_blob_def sqlite3_finalize_def sqlite3_column_row_def
  sqlite3_column_name_def strcasecmp_eq_def tolower_c_def catalog_sql_def size_t_to_int_def
  SIZE_MODULUS_def SIZE_MAX_def

lemmas queue_defs =
  sqlite_query_def sqlite_lock_def sqlite_commit_def realloc_query_def sqlite_add_def
  sqlite_done_def sqlite_replay_def sqlite_flush_def snprintf_def insert_sql_def delete_sql_def
  select_sql_def create_sql_def GEARMAN_QUEUE_QUERY_BUFFER_def

lemmas example_defs =
  example_db_def example_queue_def with_faults_def issued_def stored_rows_def healthy_def
  alloc_always_def alloc_never_def job_row_def row_job_def record_job_def
  example_key_def example_function_def example_payload_def

lemmas example_full_defs = example_rows_def example_full_db_def example_full_queue_def

lemmas init_defs =
  gearman_queue_libsqlite3_init_def init_create_def deinit_and_fail_def
  gearman_queue_libsqlite3_deinit_def gearman_conf_module_find_def
  sizeof_gearman_queue_sqlite_st_def SQLITE_MAX_TABLE_SIZE_def
  GEARMAN_QUEUE_SQLITE_DEFAULT_TABLE_def catalog_loop.simps

section \<open>Facts about the driver\<close>

text \<open>
  How the driver reads the statements the file formats: each is read as itself when the
  table name is a word, and is refused otherwise.
\<close>

lemma strip_prefix_append: "strip_prefix p (p @ s) = Some s"
  by (induction p) auto

lemma split_name_plain:
  assumes "plain_name t" "tail = [] \<or> \<not> ident_char (hd tail)"
  shows "split_name (t @ tail) = Some (t, tail)"
proof -
  have all: "\<forall>x \<in> set t. ident_char x"
    using assms(1) by (simp add: plain_name_def list_all_iff)
  have tw: "takeWhile ident_char tail = []" and dw: "dropWhile ident_char tail = tail"
    using assms(2) by (cases tail; auto)+
  have "takeWhile ident_char (t @ tail) = t" "dropWhile ident_char (t @ tail) = tail"
    using all tw dw by (simp_all add: takeWhile_append2 dropWhile_append2)
  then show ?thesis
    using assms(1) by (simp add: split_name_def plain_name_def)
qed

lemma split_name_Some:
  assumes "split_name s = Some (t, tail)"
  shows "s = t @ tail" "plain_name t" "tail = [] \<or> \<not> ident_char (hd tail)"
proof -
  from assms have t: "t = takeWhile ident_char s" and tl: "tail = dropWhile ident_char s"
    and ne: "t \<noteq> []" "ident_start (hd t)"
    by (auto simp: split_name_def Let_def split: if_splits)
  show "s = t @ tail" by (simp add: t tl)
  have "\<forall>x \<in> set t. ident_char x" unfolding t by (auto dest: set_takeWhileD)
  then show "plain_name t" using ne by (simp add: plain_name_def list_all_iff)
  show "tail = [] \<or> \<not> ident_char (hd tail)"
    unfolding tl using hd_dropWhile [of ident_char s] by auto
qed

lemma split_name_tail:
  assumes "split_name (t @ tail) = Some (t', tail)"
  shows "t' = t"
  using split_name_Some(1) [OF assms] by simp

lemma not_ident_space: "\<not> ident_char (CHR '' '')" "\<not> ident_char (CHR ''('')"
  by (simp_all add: ident_char_def ident_start_def)

lemma sql_parse_insert: "plain_name t \<Longrightarrow> sql_parse (insert_sql t) = Some (SQL_INSERT t)"
  unfolding sql_parse_def insert_sql_def
  by (simp add: catalog_sql_def strip_prefix_append split_name_plain not_ident_space)

lemma sql_parse_insert_Some:
  assumes "sql_parse (insert_sql t) = Some cmd"
  shows "cmd = SQL_INSERT t" "plain_name t"
proof -
  let ?tail = "'' (priority,unique_key,function_name,data) VALUES (?,?,?,?)''"
  from assms obtain t' where s: "split_name (t @ ?tail) = Some (t', ?tail)" and c: "cmd = SQL_INSERT t'"
    unfolding sql_parse_def insert_sql_def
    by (auto simp: catalog_sql_def strip_prefix_append split: option.splits if_splits)
  from split_name_tail [OF s] split_name_Some(2) [OF s] c
  show "cmd = SQL_INSERT t" "plain_name t" by simp_all
qed

lemma sql_parse_select: "plain_name t \<Longrightarrow> sql_parse (select_sql t) = Some (SQL_SELECT t)"
  unfolding sql_parse_def select_sql_def
  using split_name_plain [of t "[]"]
  by (simp add: catalog_sql_def strip_prefix_append)

lemma sql_parse_select_Some:
  assumes "sql_parse (select_sql t) = Some cmd"
  shows "cmd = SQL_SELECT t" "plain_name t"
proof -
  from assms obtain t' where s: "split_name (t @ []) = Some (t', [])" and c: "cmd = SQL_SELECT t'"
    unfolding sql_parse_def select_sql_def
    by (auto simp: catalog_sql_def strip_prefix_append split: option.splits if_splits)
  from split_name_tail [OF s] split_name_Some(2) [OF s] c
  show "cmd = SQL_SELECT t" "plain_name t" by simp_all
qed

lemma sql_parse_delete: "plain_name t \<Longrightarrow> sql_parse (delete_sql t) = Some (SQL_DELETE t)"
  unfolding sql_parse_def delete_sql_def
  by (simp add: catalog_sql_def strip_prefix_append split_name_plain not_ident_space)

lemma sql_parse_delete_Some:
  assumes "sql_parse (delete_sql t) = Some cmd"
  shows "cmd = SQL_DELETE t" "plain_name t"
proof -
  let ?tail = "'' WHERE unique_key=?''"
  from assms obtain t' tail' where s: "split_name (t @ ?tail) = Some (t', tail')"
    and c: "(tail' = ?tail \<and> cmd = SQL_DELETE t') \<or> (tail' = '' WHERE unique_key'' \<and> cmd = SQL_DELETE_TRUE t')
           \<or> ((tail' = [] \<or> tail' = '' '') \<and> cmd = SQL_DELETE_ALL t')"
    unfolding sql_parse_def delete_sql_def
    by (auto simp: catalog_sql_def strip_prefix_append split: option.splits if_splits)
  note e = split_name_Some(1) [OF s] and pl = split_name_Some(2) [OF s]
  have l: "last (t @ ?tail) = CHR ''?''" by simp
  have t1: "tail' \<noteq> '' WHERE unique_key''"
  proof
    assume "tail' = '' WHERE unique_key''"
    with e have "last (t @ ?tail) = CHR ''y''" by simp
    with l show False by simp
  qed
  have t2: "tail' \<noteq> '' ''"
  proof
    assume "tail' = '' ''"
    with e have "last (t @ ?tail) = CHR '' ''" by simp
    with l show False by simp
  qed
  have t3: "tail' \<noteq> []"
  proof
    assume "tail' = []"
    with e have "CHR ''?'' \<in> set t'" by (metis l last_in_set append_is_Nil_conv append_Nil2 list.distinct(1))
    with pl show False by (auto simp: plain_name_def list_all_iff ident_char_def ident_start_def)
  qed
  from c t1 t2 t3 have "tail' = ?tail" "cmd = SQL_DELETE t'" by auto
  with s split_name_tail [of t ?tail t'] pl
  show "cmd = SQL_DELETE t" "plain_name t" by simp_all
qed

lemma size_t_to_int_small: "n < 2 ^ 31 \<Longrightarrow> size_t_to_int n = int n"
  unfolding size_t_to_int_def
  by (simp add: signed_of_nat signed_take_bit_int_eq_self)

lemma size_t_to_int_max: "size_t_to_int SIZE_MAX = - 1"
  by (simp add: size_t_to_int_def SIZE_MODULUS_def SIZE_MAX_def)

lemma table_rows_update:
  "table_rows (update_rows f t cs) t = map_option f (table_rows cs t)"
  by (induction cs) auto

lemma next_fault_trace:
  "next_fault c = (f, c1) \<Longrightarrow> trace c1 = trace c \<and> catalog c1 = catalog c"
  by (auto simp: next_fault_def split: list.splits)

lemma exec_step_facts:
  "exec_step s c = (rc, s', c') \<Longrightarrow> rc \<noteq> SQLITE_OK \<and> trace c' = trace c"
  by (auto simp: exec_step_def split: sql_cmd.splits option.splits sql_value.splits if_splits)

lemma sqlite3_step_facts:
  assumes "sqlite3_step sth dbc = (rc, sth', dbc')"
  shows "rc \<noteq> SQLITE_OK" "map_option trace dbc' = map_option trace dbc"
    "dbc' = None \<longleftrightarrow> dbc = None"
  using assms
  by (auto simp: sqlite3_step_def is_error_def split: option.splits prod.splits if_splits
           dest!: exec_step_facts next_fault_trace)

section \<open>The transaction flag\<close>

lemma sqlite_query_fields:
  assumes "sqlite_query queue text n = (rc, sth, queue')"
  shows "table queue' = table queue" "query queue' = query queue"
    "query_size queue' = query_size queue" "in_trans queue' = in_trans queue"
    "db queue' = None \<longleftrightarrow> db queue = None"
  using assms
  by (auto simp: sqlite_query_def sqlite3_prepare_def Let_def
           split: prod.splits if_splits option.splits)

lemma sqlite_query_issued:
  assumes "sqlite_query queue (Some s) SIZE_MAX = (rc, sth, queue')" "db queue \<noteq> None"
  shows "issued queue' = issued queue @ [s]"
  using assms
  unfolding sqlite_query_def sqlite3_prepare_def size_t_to_int_max issued_def
  by (auto simp: Let_def split: prod.splits if_splits option.splits dest!: next_fault_trace)

lemma sqlite_lock_idle:
  assumes idle: "in_trans queue = 0" and L: "sqlite_lock queue = (rc, queue')"
  shows "rc \<noteq> SQLITE_OK \<longrightarrow> in_trans queue' = 0" "rc = SQLITE_OK \<longrightarrow> in_trans queue' = 1"
    "db queue \<noteq> None \<longrightarrow> issued queue' = issued queue @ [''BEGIN TRANSACTION'']"
proof -
  obtain ret sth q1 where Q: "sqlite_query queue (Some ''BEGIN TRANSACTION'') SIZE_MAX = (ret, sth, q1)"
    by (cases "sqlite_query queue (Some ''BEGIN TRANSACTION'') SIZE_MAX")
  obtain ret2 sth2 dbc where S: "sqlite3_step sth (db q1) = (ret2, sth2, dbc)"
    by (cases "sqlite3_step sth (db q1)")
  note f = sqlite_query_fields [OF Q] and st = sqlite3_step_facts [OF S]
  have i1: "db queue \<noteq> None \<Longrightarrow> issued q1 = issued queue @ [''BEGIN TRANSACTION'']"
    using sqlite_query_issued [OF Q] by simp
  have i2: "issued (q1\<lparr>db := dbc\<rparr>) = issued q1" "issued (q1\<lparr>db := dbc, in_trans := v\<rparr>) = issued q1" for v
    using st(2) by (auto simp: issued_def split: option.splits)
  from L idle Q S have r: "(rc, queue') =
      (if ret \<noteq> SQLITE_OK then (ret, q1)
       else if ret2 \<noteq> SQLITE_DONE then (ret2, q1\<lparr>db := dbc\<rparr>)
       else (SQLITE_OK, q1\<lparr>db := dbc, in_trans := in_trans q1 + 1\<rparr>))"
    by (auto simp: sqlite_lock_def)
  show "rc \<noteq> SQLITE_OK \<longrightarrow> in_trans queue' = 0" "rc = SQLITE_OK \<longrightarrow> in_trans queue' = 1"
    "db queue \<noteq> None \<longrightarrow> issued queue' = issued queue @ [''BEGIN TRANSACTION'']"
    using r f(4) idle st(1) i1 i2 by (auto split: if_splits)
qed

lemma sqlite_commit_open:
  assumes op: "in_trans queue \<noteq> 0" and C: "sqlite_commit queue = (rc, queue')"
  shows "rc \<noteq> SQLITE_OK \<longrightarrow> in_trans queue' = in_trans queue" "rc = SQLITE_OK \<longrightarrow> in_trans queue' = 0"
    "db queue \<noteq> None \<longrightarrow> issued queue' = issued queue @ [''COMMIT'']"
proof -
  obtain ret sth q1 where Q: "sqlite_query queue (Some ''COMMIT'') SIZE_MAX = (ret, sth, q1)"
    by (cases "sqlite_query queue (Some ''COMMIT'') SIZE_MAX")
  obtain ret2 sth2 dbc where S: "sqlite3_step sth (db q1) = (ret2, sth2, dbc)"
    by (cases "sqlite3_step sth (db q1)")
  note f = sqlite_query_fields [OF Q] and st = sqlite3_step_facts [OF S]
  have i1: "db queue \<noteq> None \<Longrightarrow> issued q1 = issued queue @ [''COMMIT'']"
    using sqlite_query_issued [OF Q] by simp
  have i2: "issued (q1\<lparr>db := dbc\<rparr>) = issued q1" "issued (q1\<lparr>db := dbc, in_trans := v\<rparr>) = issued q1" for v
    using st(2) by (auto simp: issued_def split: option.splits)
  from C op Q S have r: "(rc, queue') =
      (if ret \<noteq> SQLITE_OK then (ret, q1)
       else if ret2 \<noteq> SQLITE_DONE then (ret2, q1\<lparr>db := dbc\<rparr>)
       else (SQLITE_OK, q1\<lparr>db := dbc, in_trans := 0\<rparr>))"
    by (auto simp: sqlite_commit_def)
  show "rc \<noteq> SQLITE_OK \<longrightarrow> in_trans queue' = in_trans queue" "rc = SQLITE_OK \<longrightarrow> in_trans queue' = 0"
    "db queue \<noteq> None \<longrightarrow> issued queue' = issued queue @ [''COMMIT'']"
    using r f(4) op st(1) i1 i2 by (auto split: if_splits)
qed

text \<open>
  C4. The transaction flag moves in four ways only. \<^verbatim>\<open>_sqlite_lock\<close> on an open flag
  returns \<^verbatim>\<open>SQLITE_OK\<close> and changes nothing; on an idle flag it sends BEGIN, and the
  flag is 1 exactly when it reports success and still 0 otherwise. \<^verbatim>\<open>_sqlite_commit\<close>
  on an idle flag returns \<^verbatim>\<open>SQLITE_OK\<close> and changes nothing; on an open flag it sends
  COMMIT, and the flag is 0 exactly when it reports success and unchanged otherwise.
  So a flag that is 0 or 1 stays 0 or 1: transactions do not nest.
\<close>

theorem transaction_flag_transitions:
  "(in_trans queue \<noteq> 0 \<longrightarrow> sqlite_lock queue = (SQLITE_OK, queue))
   \<and> (in_trans queue = 0 \<longrightarrow>
        (case sqlite_lock queue of
           (rc, queue') \<Rightarrow>
             (db queue \<noteq> None \<longrightarrow> issued queue' = issued queue @ [''BEGIN TRANSACTION''])
             \<and> (rc \<noteq> SQLITE_OK \<longrightarrow> in_trans queue' = 0)
             \<and> (rc = SQLITE_OK \<longrightarrow> in_trans queue' = 1)))
   \<and> (in_trans queue = 0 \<longrightarrow> sqlite_commit queue = (SQLITE_OK, queue))
   \<and> (in_trans queue \<noteq> 0 \<longrightarrow>
        (case sqlite_commit queue of
           (rc, queue') \<Rightarrow>
             (db queue \<noteq> None \<longrightarrow> issued queue' = issued queue @ [''COMMIT''])
             \<and> (rc \<noteq> SQLITE_OK \<longrightarrow> in_trans queue' = in_trans queue)
             \<and> (rc = SQLITE_OK \<longrightarrow> in_trans queue' = 0)))
   \<and> (in_trans queue \<in> {0, 1} \<longrightarrow>
        in_trans (snd (sqlite_lock queue)) \<in> {0, 1}
        \<and> in_trans (snd (sqlite_commit queue)) \<in> {0, 1})"
proof -
  obtain lrc ql where L: "sqlite_lock queue = (lrc, ql)" by (cases "sqlite_lock queue")
  obtain crc qc where C: "sqlite_commit queue = (crc, qc)" by (cases "sqlite_commit queue")
  have l1: "in_trans queue \<noteq> 0 \<Longrightarrow> sqlite_lock queue = (SQLITE_OK, queue)"
    by (simp add: sqlite_lock_def)
  have c1: "in_trans queue = 0 \<Longrightarrow> sqlite_commit queue = (SQLITE_OK, queue)"
    by (simp add: sqlite_commit_def)
  have l2: "in_trans queue = 0 \<Longrightarrow> in_trans ql = 0 \<or> in_trans ql = 1"
    using sqlite_lock_idle(1,2) [OF _ L] by blast
  have c2: "in_trans queue \<noteq> 0 \<Longrightarrow> in_trans qc = in_trans queue \<or> in_trans qc = 0"
    using sqlite_commit_open(1,2) [OF _ C] by blast
  show ?thesis
    using l1 c1 l2 c2 sqlite_lock_idle [OF _ L] sqlite_commit_open [OF _ C]
    by (auto simp: L C)
qed

theorem transaction_flag_transitions_witness:
  "in_trans example_queue = 0
   \<and> fst (sqlite_lock example_queue) = SQLITE_OK
   \<and> in_trans (snd (sqlite_lock example_queue)) = 1
   \<and> issued (snd (sqlite_lock example_queue)) = [''BEGIN TRANSACTION'']
   \<and> sqlite_commit example_queue = (SQLITE_OK, example_queue)
   \<and> fst (sqlite_lock (with_faults [SQLITE_BUSY] example_queue)) = SQLITE_BUSY
   \<and> in_trans (snd (sqlite_lock (with_faults [SQLITE_BUSY] example_queue))) = 0
   \<and> sqlite_lock (snd (sqlite_lock example_queue)) = (SQLITE_OK, snd (sqlite_lock example_queue))
   \<and> fst (sqlite_commit (snd (sqlite_lock example_queue))) = SQLITE_OK
   \<and> in_trans (snd (sqlite_commit (snd (sqlite_lock example_queue)))) = 0
   \<and> issued (snd (sqlite_commit (snd (sqlite_lock example_queue))))
       = [''BEGIN TRANSACTION'', ''COMMIT'']
   \<and> fst (sqlite_commit (with_faults [SQLITE_OK, SQLITE_BUSY] (snd (sqlite_lock example_queue))))
       = SQLITE_BUSY
   \<and> in_trans (snd (sqlite_commit
         (with_faults [SQLITE_OK, SQLITE_BUSY] (snd (sqlite_lock example_queue))))) = 1"
  using transaction_flag_transitions [of example_queue]
    transaction_flag_transitions [of "with_faults [SQLITE_BUSY] example_queue"]
    transaction_flag_transitions [of "snd (sqlite_lock example_queue)"]
    transaction_flag_transitions
      [of "with_faults [SQLITE_OK, SQLITE_BUSY] (snd (sqlite_lock example_queue))"]
  by (simp add: driver_defs queue_defs example_defs)

section \<open>A handle in working order\<close>

text \<open>
  With no failure scripted, every driver call of the callbacks succeeds, and what each
  callback does to the handle can be written down in full.
\<close>

lemma sqlite_query_ok:
  assumes "db queue = Some c" "faults c = []" "length s < 2 ^ 31"
    and "length s \<le> n \<and> n < 2 ^ 31 \<or> n = SIZE_MAX"
    and "sql_parse s = Some cmd" "prepare_ok cmd c"
  shows "sqlite_query queue (Some s) n =
           (SQLITE_OK, Some (new_stmt cmd), queue\<lparr>db := Some (c\<lparr>trace := trace c @ [s]\<rparr>)\<rparr>)"
proof -
  have tx: "(if size_t_to_int n < 0 then s else take (nat (size_t_to_int n)) s) = s"
    using assms(3,4) size_t_to_int_max by (auto simp: size_t_to_int_small)
  have po: "prepare_ok cmd (c\<lparr>trace := trace c @ [s]\<rparr>)"
    using assms(6) by (simp add: prepare_ok_def split: sql_cmd.splits)
  show ?thesis
    unfolding sqlite_query_def sqlite3_prepare_def
    using assms(1,2,5) po
    by (simp add: tx next_fault_def is_error_def)
qed

lemma sqlite_query_refused:
  assumes "db queue = Some c" "faults c = []" "length s \<le> n" "n < 2 ^ 31"
    and "sql_parse s = None \<or> (\<exists>cmd. sql_parse s = Some cmd \<and> \<not> prepare_ok cmd c)"
  shows "sqlite_query queue (Some s) n =
           (SQLITE_ERROR, None, queue\<lparr>db := Some (c\<lparr>trace := trace c @ [s]\<rparr>)\<rparr>)"
proof -
  have tx: "(if size_t_to_int n < 0 then s else take (nat (size_t_to_int n)) s) = s"
    using assms(3,4) by (auto simp: size_t_to_int_small)
  have po: "prepare_ok cmd (c\<lparr>trace := trace c @ [s]\<rparr>) = prepare_ok cmd c" for cmd
    by (simp add: prepare_ok_def split: sql_cmd.splits)
  show ?thesis
    unfolding sqlite_query_def sqlite3_prepare_def
    using assms(1,2,5)
    by (auto simp: tx next_fault_def is_error_def po)
qed

lemma sqlite_lock_healthy:
  assumes "healthy queue" "db queue = Some c"
  shows "sqlite_lock queue =
           (SQLITE_OK,
            if in_trans queue \<noteq> 0 then queue
            else queue\<lparr>db := Some (c\<lparr>trace := trace c @ [''BEGIN TRANSACTION''], in_txn := True\<rparr>),
                       in_trans := 1\<rparr>)"
proof (cases "in_trans queue \<noteq> 0")
  case True
  then show ?thesis by (simp add: sqlite_lock_def)
next
  case False
  have q: "sqlite_query queue (Some ''BEGIN TRANSACTION'') SIZE_MAX =
      (SQLITE_OK, Some (new_stmt SQL_BEGIN),
       queue\<lparr>db := Some (c\<lparr>trace := trace c @ [''BEGIN TRANSACTION'']\<rparr>)\<rparr>)"
    using assms by (intro sqlite_query_ok) (auto simp: healthy_def sql_parse_def prepare_ok_def)
  from False assms show ?thesis
    unfolding sqlite_lock_def q
    by (simp add: sqlite3_step_def next_fault_def is_error_def exec_step_def
        new_stmt_def healthy_def)
qed

lemma sqlite_commit_healthy:
  assumes "healthy queue" "db queue = Some c"
  shows "sqlite_commit queue =
           (SQLITE_OK,
            if in_trans queue = 0 then queue
            else queue\<lparr>db := Some (c\<lparr>trace := trace c @ [''COMMIT''], in_txn := False\<rparr>),
                       in_trans := 0\<rparr>)"
proof (cases "in_trans queue = 0")
  case True
  then show ?thesis by (simp add: sqlite_commit_def)
next
  case False
  have q: "sqlite_query queue (Some ''COMMIT'') SIZE_MAX =
      (SQLITE_OK, Some (new_stmt SQL_COMMIT),
       queue\<lparr>db := Some (c\<lparr>trace := trace c @ [''COMMIT'']\<rparr>)\<rparr>)"
    using assms by (intro sqlite_query_ok) (auto simp: healthy_def sql_parse_def prepare_ok_def)
  from False assms show ?thesis
    unfolding sqlite_commit_def q
    by (simp add: sqlite3_step_def next_fault_def is_error_def exec_step_def
        new_stmt_def healthy_def)
qed


lemma healthy_after_lock:
  assumes "healthy queue" "db queue = Some c"
  obtains qL cL where "sqlite_lock queue = (SQLITE_OK, qL)" "db qL = Some cL" "healthy qL"
    "in_trans qL \<noteq> 0" "catalog cL = catalog c" "scan_order cL = scan_order c"
    "table qL = table queue" "query qL = query queue" "query_size qL = query_size queue"
    "trace cL = trace c @ (if in_trans queue = 0 then [''BEGIN TRANSACTION''] else [])"
proof (cases "in_trans queue = 0")
  case True
  let ?cL = "c\<lparr>trace := trace c @ [''BEGIN TRANSACTION''], in_txn := True\<rparr>"
  let ?qL = "queue\<lparr>db := Some ?cL, in_trans := 1\<rparr>"
  have "sqlite_lock queue = (SQLITE_OK, ?qL)"
    using sqlite_lock_healthy [OF assms] True by simp
  moreover have "healthy ?qL" using assms by (simp add: healthy_def)
  ultimately show ?thesis using True by (intro that [of ?qL ?cL]) simp_all
next
  case False
  have "sqlite_lock queue = (SQLITE_OK, queue)"
    using sqlite_lock_healthy [OF assms] False by simp
  then show ?thesis using False assms by (intro that [of queue c]) simp_all
qed

lemma add_needed:
  assumes "length u < 2 ^ 31" "length f < 2 ^ 31" "length d < 2 ^ 31"
  shows "((length u + length f + length d) * 2 + GEARMAN_QUEUE_QUERY_BUFFER) mod SIZE_MODULUS
           = (length u + length f + length d) * 2 + 256"
  using assms by (simp add: GEARMAN_QUEUE_QUERY_BUFFER_def SIZE_MODULUS_def)

lemma realloc_query_ok:
  assumes "alloc_ok needed" "0 < needed" "query queue = None \<longrightarrow> query_size queue = 0"
  obtains q1 old where "realloc_query alloc_ok queue needed = Some q1"
    "query q1 = Some old" "db q1 = db queue" "table q1 = table queue"
    "in_trans q1 = in_trans queue" "query_size q1 = max (query_size queue) needed"
proof (cases "needed > query_size queue")
  case True
  with assms(1) show ?thesis
    by (intro that [of "queue\<lparr>query := Some (case query queue of None \<Rightarrow> [] | Some s \<Rightarrow> s),
                             query_size := needed\<rparr>"])
       (simp_all add: realloc_query_def)
next
  case False
  with assms(2,3) obtain old where "query queue = Some old" by (cases "query queue") auto
  with False show ?thesis by (intro that [of queue old]) (simp_all add: realloc_query_def)
qed

lemma sqlite_add_healthy:
  assumes h: "healthy queue" and dbq: "db queue = Some c"
    and plain: "plain_name (table queue)"
    and fits: "length (insert_sql (table queue)) < GEARMAN_QUEUE_QUERY_BUFFER"
    and sz: "length unique < 2 ^ 31" "length function_name < 2 ^ 31" "length data < 2 ^ 31"
    and fresh: "unique \<notin> row_unique_key ` set (stored_rows queue)"
    and alloc: "\<And>n. alloc_ok n"
  obtains queue' c' where
    "sqlite_add alloc_ok queue unique function_name data priority = (Some GEARMAN_SUCCESS, queue')"
    "healthy queue'" "db queue' = Some c'" "in_trans queue' = 0" "table queue' = table queue"
    "scan_order c' = scan_order c"
    "stored_rows queue' = stored_rows queue @ [job_row unique function_name data priority]"
    "GEARMAN_QUEUE_QUERY_BUFFER \<le> query_size queue'"
proof -
  define needed where "needed = (length unique + length function_name + length data) * 2 + 256"
  have nd: "((length unique + length function_name + length data) * 2
              + GEARMAN_QUEUE_QUERY_BUFFER) mod SIZE_MODULUS = needed"
    unfolding needed_def by (rule add_needed [OF sz])
  have big: "256 \<le> needed" by (simp add: needed_def)
  let ?t = "table queue"
  let ?row = "job_row unique function_name data priority"
  from h dbq obtain qL cL where L: "sqlite_lock queue = (SQLITE_OK, qL)" "db qL = Some cL"
    "healthy qL" "in_trans qL \<noteq> 0" "catalog cL = catalog c" "scan_order cL = scan_order c"
    "table qL = table queue" "query qL = query queue" "query_size qL = query_size queue"
    by (rule healthy_after_lock)
  from L(2,3) have qn: "query qL = None \<longrightarrow> query_size qL = 0" and fl: "faults cL = []"
    and txn: "in_txn cL" and ex: "table_rows (catalog cL) (table qL) \<noteq> None"
    using L(4) by (auto simp: healthy_def)
  obtain q1 old where R: "realloc_query alloc_ok qL needed = Some q1"
    "query q1 = Some old" "db q1 = db qL" "table q1 = table qL"
    "in_trans q1 = in_trans qL" "query_size q1 = max (query_size qL) needed"
  proof (rule realloc_query_ok [OF _ _ qn, of alloc_ok needed])
    show "alloc_ok needed" by (rule alloc)
    show "0 < needed" using big by simp
  qed
  have sn: "snprintf (query q1) needed (insert_sql (table q1)) =
              Some (Some (insert_sql ?t), length (insert_sql ?t))"
    using fits R(2,4) L(7) big by (simp add: snprintf_def GEARMAN_QUEUE_QUERY_BUFFER_def)
  let ?q1' = "q1\<lparr>query := Some (insert_sql ?t)\<rparr>"
  let ?c2 = "cL\<lparr>trace := trace cL @ [insert_sql ?t]\<rparr>"
  have Q: "sqlite_query ?q1' (Some (insert_sql ?t)) (length (insert_sql ?t)) =
             (SQLITE_OK, Some (new_stmt (SQL_INSERT ?t)), ?q1'\<lparr>db := Some ?c2\<rparr>)"
    using fits fl ex R(3) L(2,7)
    by (intro sqlite_query_ok)
       (auto simp: sql_parse_insert [OF plain] prepare_ok_def GEARMAN_QUEUE_QUERY_BUFFER_def)
  obtain rs where rs: "table_rows (catalog c) ?t = Some rs"
    using ex L(5,7) by auto
  then have st: "stored_rows queue = rs" using dbq by (simp add: stored_rows_def)
  let ?c3 = "?c2\<lparr>catalog := update_rows (\<lambda>rs. rs @ [?row]) ?t (catalog c)\<rparr>"
  let ?sth4 = "sqlite3_bind_blob
                 (sqlite3_bind_text
                    (sqlite3_bind_text
                       (sqlite3_bind_int (Some (new_stmt (SQL_INSERT ?t))) 1 priority)
                       2 unique) 3 function_name) 4 data"
  have S: "\<exists>s5. sqlite3_step ?sth4 (Some ?c2) = (SQLITE_DONE, s5, Some ?c3)"
    using fl rs fresh st L(5)
    by (simp add: sqlite3_step_def next_fault_def is_error_def exec_step_def new_stmt_def
        sqlite3_bind_def sqlite3_bind_int_def sqlite3_bind_text_def sqlite3_bind_blob_def
        job_row_def)
  then obtain s5 where S5: "sqlite3_step ?sth4 (Some ?c2) = (SQLITE_DONE, s5, Some ?c3)" ..
  let ?q3 = "?q1'\<lparr>db := Some ?c3\<rparr>"
  have h3: "healthy ?q3"
    using fl txn R(5) L(4,7) R(4) rs by (simp add: healthy_def table_rows_update)
  let ?c4 = "?c3\<lparr>trace := trace ?c3 @ [''COMMIT''], in_txn := False\<rparr>"
  let ?q4 = "?q3\<lparr>db := Some ?c4, in_trans := 0\<rparr>"
  have C: "sqlite_commit ?q3 = (SQLITE_OK, ?q4)"
    using sqlite_commit_healthy [OF h3, of ?c3] R(5) L(4) by simp
  have res: "sqlite_add alloc_ok queue unique function_name data priority = (Some GEARMAN_SUCCESS, ?q4)"
    unfolding sqlite_add_def L(1) nd
    using S5 C by (simp add: R(1) sn Q Let_def)
  show ?thesis
  proof (rule that [OF res, of ?c4])
    show "healthy ?q4" using h3 by (simp add: healthy_def)
    show "stored_rows ?q4 = stored_rows queue @ [?row]"
      using st rs R(4) L(7) by (simp add: stored_rows_def table_rows_update)
    show "GEARMAN_QUEUE_QUERY_BUFFER \<le> query_size ?q4"
      using R(6) big by (simp add: GEARMAN_QUEUE_QUERY_BUFFER_def)
  qed (simp_all add: R(4) L(6,7))
qed


lemma select_step:
  assumes "stmt_cmd s = SQL_SELECT t" "table_rows (catalog c) t = Some rs" "faults c = []"
  shows "sqlite3_step (Some s) (Some c) =
           (if stmt_cursor s < length (scan_order c rs)
            then (SQLITE_ROW,
                  Some (s\<lparr>stmt_cursor := stmt_cursor s + 1,
                          stmt_row := Some (scan_order c rs ! stmt_cursor s),
                          stmt_rc := SQLITE_ROW\<rparr>), Some c)
            else (SQLITE_DONE, Some (s\<lparr>stmt_row := None, stmt_rc := SQLITE_DONE\<rparr>), Some c))"
  using assms
  by (simp add: sqlite3_step_def next_fault_def is_error_def exec_step_def)

lemma replay_rows_record:
  assumes "stmt_cmd s = SQL_SELECT t" "table_rows (catalog c) t = Some rs" "faults c = []"
    and alloc: "\<And>n. alloc_ok n"
  shows "replay_rows alloc_ok record_job ctx (Some s) (Some c) =
           (Some GEARMAN_SUCCESS,
            ctx @ map row_job (drop (stmt_cursor s) (scan_order c rs)), Some c)"
  using assms(1)
proof (induction "length (scan_order c rs) - stmt_cursor s" arbitrary: s ctx)
  case 0
  then show ?case
    by (subst replay_rows.simps) (simp add: select_step [OF _ assms(2,3)])
next
  case (Suc k)
  let ?xs = "scan_order c rs"
  let ?s' = "s\<lparr>stmt_cursor := stmt_cursor s + 1, stmt_row := Some (?xs ! stmt_cursor s),
               stmt_rc := SQLITE_ROW\<rparr>"
  from Suc.hyps(2) have lt: "stmt_cursor s < length ?xs" by simp
  have ih: "replay_rows alloc_ok record_job (ctx @ [row_job (?xs ! stmt_cursor s)]) (Some ?s') (Some c) =
      (Some GEARMAN_SUCCESS,
       (ctx @ [row_job (?xs ! stmt_cursor s)]) @ map row_job (drop (stmt_cursor ?s') ?xs), Some c)"
    using Suc.hyps(2) Suc.prems by (intro Suc.hyps(1)) simp_all
  have dr: "drop (stmt_cursor s) ?xs = ?xs ! stmt_cursor s # drop (Suc (stmt_cursor s)) ?xs"
    using lt by (simp add: Cons_nth_drop_Suc)
  show ?case
    apply (subst replay_rows.simps)
    using lt ih
    apply (simp add: select_step [OF Suc.prems assms(2,3)] sqlite3_column_row_def alloc
        record_job_def row_job_def dr Let_def)
    done
qed

lemma sqlite_replay_healthy:
  assumes h: "healthy queue" and dbq: "db queue = Some c"
    and plain: "plain_name (table queue)"
    and fits: "length (select_sql (table queue)) < GEARMAN_QUEUE_QUERY_BUFFER"
    and alloc: "\<And>n. alloc_ok n"
  obtains queue' where
    "sqlite_replay alloc_ok queue record_job ctx =
       (Some GEARMAN_SUCCESS, ctx @ map row_job (scan_order c (stored_rows queue)), queue')"
    "stored_rows queue' = stored_rows queue" "healthy queue'"
proof -
  let ?t = "table queue"
  from h dbq have qn: "query queue = None \<longrightarrow> query_size queue = 0" and fl: "faults c = []"
    and ex: "table_rows (catalog c) ?t \<noteq> None"
    by (auto simp: healthy_def)
  obtain q1 old where R: "realloc_query alloc_ok queue GEARMAN_QUEUE_QUERY_BUFFER = Some q1"
    "query q1 = Some old" "db q1 = db queue" "table q1 = table queue"
    "in_trans q1 = in_trans queue" "query_size q1 = max (query_size queue) GEARMAN_QUEUE_QUERY_BUFFER"
  proof (rule realloc_query_ok [OF _ _ qn, of alloc_ok GEARMAN_QUEUE_QUERY_BUFFER])
    show "alloc_ok GEARMAN_QUEUE_QUERY_BUFFER" by (rule alloc)
    show "0 < GEARMAN_QUEUE_QUERY_BUFFER" by (simp add: GEARMAN_QUEUE_QUERY_BUFFER_def)
  qed
  have sn: "snprintf (query q1) GEARMAN_QUEUE_QUERY_BUFFER (select_sql (table q1)) =
              Some (Some (select_sql ?t), length (select_sql ?t))"
    using fits R(2,4) by (simp add: snprintf_def GEARMAN_QUEUE_QUERY_BUFFER_def)
  let ?q1' = "q1\<lparr>query := Some (select_sql ?t)\<rparr>"
  let ?c2 = "c\<lparr>trace := trace c @ [select_sql ?t]\<rparr>"
  have Q: "sqlite_query ?q1' (Some (select_sql ?t)) (length (select_sql ?t)) =
             (SQLITE_OK, Some (new_stmt (SQL_SELECT ?t)), ?q1'\<lparr>db := Some ?c2\<rparr>)"
    using fits fl ex R(3) dbq
    by (intro sqlite_query_ok)
       (auto simp: sql_parse_select [OF plain] prepare_ok_def GEARMAN_QUEUE_QUERY_BUFFER_def)
  obtain rs where rs: "table_rows (catalog c) ?t = Some rs"
    using ex by auto
  then have st: "stored_rows queue = rs" using dbq by (simp add: stored_rows_def)
  have RR: "replay_rows alloc_ok record_job ctx (Some (new_stmt (SQL_SELECT ?t))) (Some ?c2) =
      (Some GEARMAN_SUCCESS, ctx @ map row_job (scan_order c rs), Some ?c2)"
    using replay_rows_record [of "new_stmt (SQL_SELECT ?t)" ?t ?c2 rs alloc_ok ctx] rs fl alloc
    by (simp add: new_stmt_def)
  let ?q3 = "?q1'\<lparr>db := Some ?c2\<rparr>"
  have res: "sqlite_replay alloc_ok queue record_job ctx =
       (Some GEARMAN_SUCCESS, ctx @ map row_job (scan_order c (stored_rows queue)), ?q3)"
    unfolding sqlite_replay_def
    by (simp add: R(1) sn Q RR st)
  show ?thesis
  proof (rule that [OF res])
    show "stored_rows ?q3 = stored_rows queue"
      using rs st R(4) by (simp add: stored_rows_def)
    show "healthy ?q3"
      using h dbq R(4,5) by (simp add: healthy_def)
  qed
qed


text \<open>
  The priority read back from a row: exact wherever the double is, and so for the three
  priorities of the enumeration. Beyond 53 bits the double rounds.
\<close>

lemma excess_bits_small: "a < 2 ^ 53 \<Longrightarrow> excess_bits a = 0"
  by (subst excess_bits.simps) simp

lemma double_of_int64_small: "\<bar>v\<bar> < 2 ^ 53 \<Longrightarrow> double_of_int64 v = v"
proof -
  assume a: "\<bar>v\<bar> < 2 ^ 53"
  then have "int (nat \<bar>v\<bar>) < int (2 ^ 53)" by simp
  then have "nat \<bar>v\<bar> < 2 ^ 53" by (simp only: of_nat_less_iff)
  then have "excess_bits (nat \<bar>v\<bar>) = 0" by (rule excess_bits_small)
  then show ?thesis by (simp add: double_of_int64_def Let_def mult_sgn_abs)
qed

lemma priority_of_int64_enum:
  "priority_of_int64 0 = 0" "priority_of_int64 1 = 1" "priority_of_int64 2 = 2"
  by (simp_all add: priority_of_int64_def double_of_int64_small)

lemma excess_bits_example: "excess_bits 9007199254740993 = 1"
  by (subst excess_bits.simps, simp, subst excess_bits.simps, simp)

lemma priority_of_int64_rounds: "priority_of_int64 (2 ^ 53 + 1) = 0"
  by (simp add: priority_of_int64_def double_of_int64_def excess_bits_example Let_def)

lemma row_job_job_row:
  "valid_priority p \<Longrightarrow> row_job (job_row u f d p) = (u, f, d, p)"
  by (auto simp: valid_priority_def row_job_def job_row_def priority_of_int64_enum
      GEARMAN_JOB_PRIORITY_HIGH_def GEARMAN_JOB_PRIORITY_NORMAL_def GEARMAN_JOB_PRIORITY_LOW_def)

lemma select_shorter: "length (select_sql t) \<le> length (insert_sql t)"
  by (simp add: select_sql_def insert_sql_def)

section \<open>Adding and replaying\<close>

text \<open>
  Where adding and replaying work. On a handle in working order whose table name is a
  word and whose INSERT statement fits the 256 bytes the buffer always has (a name of
  at most 185 bytes), adding a job whose key is not stored yet (byte counts within the
  driver's \<^verbatim>\<open>int\<close>, payload of any bytes, the empty one included, a priority of the
  enumeration) succeeds, and a replay right after it hands the callback every stored
  row once, in whatever order the store scans them: exactly one of the jobs delivered
  carries the key, and it is the job added, byte for byte. On an empty table it is the
  only one.
\<close>

lemma add_then_replay_short_name:
  assumes h: "healthy queue" and dbq: "db queue = Some c"
    and plain: "plain_name (table queue)"
    and perm: "\<forall>rs. mset (scan_order c rs) = mset rs"
    and fits: "length (insert_sql (table queue)) < GEARMAN_QUEUE_QUERY_BUFFER"
    and sz: "length unique < 2 ^ 31" "length function_name < 2 ^ 31" "length data < 2 ^ 31"
    and vp: "valid_priority priority"
    and fresh: "unique \<notin> row_unique_key ` set (stored_rows queue)"
  shows "\<exists>queue' jobs queue''.
           sqlite_add alloc_always queue unique function_name data priority
             = (Some GEARMAN_SUCCESS, queue')
         \<and> sqlite_replay alloc_always queue' record_job [] = (Some GEARMAN_SUCCESS, jobs, queue'')
         \<and> filter (\<lambda>j. fst j = unique) jobs = [(unique, function_name, data, priority)]
         \<and> mset jobs
             = mset (map row_job (stored_rows queue)) + {#(unique, function_name, data, priority)#}
         \<and> (stored_rows queue = [] \<longrightarrow> jobs = [(unique, function_name, data, priority)])"
proof -
  let ?j = "(unique, function_name, data, priority)"
  let ?r = "job_row unique function_name data priority"
  have al: "\<And>n. alloc_always n" by (simp add: alloc_always_def)
  from h dbq plain fits sz fresh al obtain queue' c' where A:
    "sqlite_add alloc_always queue unique function_name data priority = (Some GEARMAN_SUCCESS, queue')"
    "healthy queue'" "db queue' = Some c'" "in_trans queue' = 0" "table queue' = table queue"
    "scan_order c' = scan_order c"
    "stored_rows queue' = stored_rows queue @ [?r]"
    by (rule sqlite_add_healthy)
  have fits': "length (select_sql (table queue')) < GEARMAN_QUEUE_QUERY_BUFFER"
    using fits select_shorter [of "table queue"] A(5) by simp
  define jobs where "jobs = map row_job (scan_order c (stored_rows queue @ [?r]))"
  have plain': "plain_name (table queue')" using plain A(5) by simp
  from A(2,3) plain' fits' al obtain queue'' where R:
    "sqlite_replay alloc_always queue' record_job [] = (Some GEARMAN_SUCCESS, jobs, queue'')"
    using sqlite_replay_healthy [of queue' c' alloc_always "[]"] A(6,7)
    by (auto simp: jobs_def)
  have ms: "mset jobs = mset (map row_job (stored_rows queue)) + {#?j#}"
  proof -
    have "mset jobs = image_mset row_job (mset (scan_order c (stored_rows queue @ [?r])))"
      by (simp add: jobs_def)
    also have "\<dots> = image_mset row_job (mset (stored_rows queue @ [?r]))"
      using perm by simp
    finally show ?thesis by (simp add: row_job_job_row [OF vp])
  qed
  have other: "\<forall>j \<in># mset (map row_job (stored_rows queue)). fst j \<noteq> unique"
    using fresh by (auto simp: row_job_def)
  have "mset (filter (\<lambda>j. fst j = unique) jobs)
          = filter_mset (\<lambda>j. fst j = unique) (mset (map row_job (stored_rows queue)))
            + filter_mset (\<lambda>j. fst j = unique) {#?j#}"
    by (simp only: mset_filter ms filter_union_mset)
  also have "filter_mset (\<lambda>j. fst j = unique) (mset (map row_job (stored_rows queue))) = {#}"
    using other by (simp only: filter_mset_eq_mempty_iff) blast
  finally have "mset (filter (\<lambda>j. fst j = unique) jobs) = {#?j#}"
    by simp
  then have fl: "filter (\<lambda>j. fst j = unique) jobs = [?j]"
    by (simp only: mset_single_iff)
  have emp: "stored_rows queue = [] \<longrightarrow> jobs = [?j]"
    using ms by auto
  from A(1) R fl ms emp show ?thesis by blast
qed


text \<open>
  The scenario \<^verbatim>\<open>add("job-1","reverse",HIGH,[0x00,0x01,0xFF])\<close> then replay, on the
  default table.
\<close>

lemma add_then_replay_example:
  "healthy example_queue
   \<and> stored_rows example_queue = []
   \<and> fst (sqlite_add alloc_always example_queue example_key example_function example_payload
            GEARMAN_JOB_PRIORITY_HIGH) = Some GEARMAN_SUCCESS
   \<and> fst (snd (sqlite_replay alloc_always
                 (snd (sqlite_add alloc_always example_queue example_key example_function
                         example_payload GEARMAN_JOB_PRIORITY_HIGH))
                 record_job []))
       = [(example_key, example_function, example_payload, GEARMAN_JOB_PRIORITY_HIGH)]"
proof -
  have h: "healthy example_queue" and d: "db example_queue = Some example_db"
    and e: "stored_rows example_queue = []"
    by (simp_all add: healthy_def stored_rows_def example_queue_def example_db_def
        strcasecmp_eq_def)
  have p: "\<forall>rs. mset (scan_order example_db rs) = mset rs"
    by (simp add: example_db_def)
  have f: "length (insert_sql (table example_queue)) < GEARMAN_QUEUE_QUERY_BUFFER"
    by (simp add: insert_sql_def example_queue_def GEARMAN_QUEUE_QUERY_BUFFER_def)
  have pl: "plain_name (table example_queue)"
    by (simp add: example_queue_def plain_name_def ident_char_def ident_start_def)
  have s: "length example_key < 2 ^ 31" "length example_function < 2 ^ 31"
    "length example_payload < 2 ^ 31"
    by (simp_all add: example_key_def example_function_def example_payload_def)
  have v: "valid_priority GEARMAN_JOB_PRIORITY_HIGH"
    by (simp add: valid_priority_def)
  have n: "example_key \<notin> row_unique_key ` set (stored_rows example_queue)"
    by (simp add: e)
  from add_then_replay_short_name [OF h d pl p f s v n] e h show ?thesis
    by auto
qed

section \<open>Completing a job\<close>

lemma done_needed:
  assumes "length u < 2 ^ 31"
  shows "(length u * 2 + GEARMAN_QUEUE_QUERY_BUFFER) mod SIZE_MODULUS = length u * 2 + 256"
  using assms by (simp add: GEARMAN_QUEUE_QUERY_BUFFER_def SIZE_MODULUS_def)

lemma sqlite_done_healthy:
  assumes h: "healthy queue" and dbq: "db queue = Some c"
    and plain: "plain_name (table queue)"
    and fits: "length (delete_sql (table queue)) < GEARMAN_QUEUE_QUERY_BUFFER"
    and sz: "length unique < 2 ^ 31"
    and alloc: "\<And>n. alloc_ok n"
  obtains queue' c' where
    "sqlite_done alloc_ok queue unique function_name = (Some GEARMAN_SUCCESS, queue')"
    "healthy queue'" "db queue' = Some c'" "in_trans queue' = 0" "table queue' = table queue"
    "scan_order c' = scan_order c"
    "stored_rows queue' = filter (\<lambda>r. row_unique_key r \<noteq> unique) (stored_rows queue)"
proof -
  define needed where "needed = length unique * 2 + 256"
  have nd: "(length unique * 2 + GEARMAN_QUEUE_QUERY_BUFFER) mod SIZE_MODULUS = needed"
    unfolding needed_def by (rule done_needed [OF sz])
  have big: "256 \<le> needed" by (simp add: needed_def)
  let ?t = "table queue"
  from h dbq obtain qL cL where L: "sqlite_lock queue = (SQLITE_OK, qL)" "db qL = Some cL"
    "healthy qL" "in_trans qL \<noteq> 0" "catalog cL = catalog c" "scan_order cL = scan_order c"
    "table qL = table queue" "query qL = query queue" "query_size qL = query_size queue"
    by (rule healthy_after_lock)
  from L(2,3) have qn: "query qL = None \<longrightarrow> query_size qL = 0" and fl: "faults cL = []"
    and txn: "in_txn cL" and ex: "table_rows (catalog cL) (table qL) \<noteq> None"
    using L(4) by (auto simp: healthy_def)
  obtain q1 old where R: "realloc_query alloc_ok qL needed = Some q1"
    "query q1 = Some old" "db q1 = db qL" "table q1 = table qL"
    "in_trans q1 = in_trans qL" "query_size q1 = max (query_size qL) needed"
  proof (rule realloc_query_ok [OF _ _ qn, of alloc_ok needed])
    show "alloc_ok needed" by (rule alloc)
    show "0 < needed" using big by simp
  qed
  have sn: "snprintf (query q1) needed (delete_sql (table q1)) =
              Some (Some (delete_sql ?t), length (delete_sql ?t))"
    using fits R(2,4) L(7) big by (simp add: snprintf_def GEARMAN_QUEUE_QUERY_BUFFER_def)
  let ?q1' = "q1\<lparr>query := Some (delete_sql ?t)\<rparr>"
  let ?c2 = "cL\<lparr>trace := trace cL @ [delete_sql ?t]\<rparr>"
  have Q: "sqlite_query ?q1' (Some (delete_sql ?t)) (length (delete_sql ?t)) =
             (SQLITE_OK, Some (new_stmt (SQL_DELETE ?t)), ?q1'\<lparr>db := Some ?c2\<rparr>)"
    using fits fl ex R(3) L(2,7)
    by (intro sqlite_query_ok)
       (auto simp: sql_parse_delete [OF plain] prepare_ok_def GEARMAN_QUEUE_QUERY_BUFFER_def)
  obtain rs where rs: "table_rows (catalog c) ?t = Some rs"
    using ex L(5,7) by auto
  then have st: "stored_rows queue = rs" using dbq by (simp add: stored_rows_def)
  let ?c3 = "?c2\<lparr>catalog := update_rows (filter (\<lambda>r. row_unique_key r \<noteq> unique)) ?t (catalog c)\<rparr>"
  let ?sth1 = "sqlite3_bind_text (Some (new_stmt (SQL_DELETE ?t))) 1 unique"
  have S: "\<exists>s5. sqlite3_step ?sth1 (Some ?c2) = (SQLITE_DONE, s5, Some ?c3)"
    using fl rs st L(5)
    by (simp add: sqlite3_step_def next_fault_def is_error_def exec_step_def new_stmt_def
        sqlite3_bind_def sqlite3_bind_text_def)
  then obtain s5 where S5: "sqlite3_step ?sth1 (Some ?c2) = (SQLITE_DONE, s5, Some ?c3)" ..
  let ?q3 = "?q1'\<lparr>db := Some ?c3\<rparr>"
  have h3: "healthy ?q3"
    using fl txn R(5) L(4,7) R(4) rs by (simp add: healthy_def table_rows_update)
  let ?c4 = "?c3\<lparr>trace := trace ?c3 @ [''COMMIT''], in_txn := False\<rparr>"
  let ?q4 = "?q3\<lparr>db := Some ?c4, in_trans := 0\<rparr>"
  have C: "sqlite_commit ?q3 = (SQLITE_OK, ?q4)"
    using sqlite_commit_healthy [OF h3, of ?c3] R(5) L(4) by simp
  have res: "sqlite_done alloc_ok queue unique function_name = (Some GEARMAN_SUCCESS, ?q4)"
    unfolding sqlite_done_def L(1) nd
    using S5 C by (simp add: R(1) sn Q Let_def)
  show ?thesis
  proof (rule that [OF res, of ?c4])
    show "healthy ?q4" using h3 by (simp add: healthy_def)
    show "stored_rows ?q4 = filter (\<lambda>r. row_unique_key r \<noteq> unique) (stored_rows queue)"
      using st rs R(4) L(7) by (simp add: stored_rows_def table_rows_update)
  qed (simp_all add: R(4) L(6,7))
qed

lemma delete_shorter: "length (delete_sql t) \<le> length (select_sql t)"
  by (simp add: select_sql_def delete_sql_def)

lemma filter_one_less:
  "distinct (map f xs) \<Longrightarrow> k \<in> f ` set xs \<Longrightarrow> length (filter (\<lambda>r. f r \<noteq> k) xs) + 1 = length xs"
proof (induction xs)
  case Nil
  then show ?case by simp
next
  case (Cons x xs)
  show ?case
  proof (cases "f x = k")
    case True
    with Cons.prems have "\<forall>r \<in> set xs. f r \<noteq> k" by (auto simp: image_iff)
    then have "filter (\<lambda>r. f r \<noteq> k) xs = xs" by (simp add: filter_id_conv)
    with True show ?thesis by simp
  next
    case False
    with Cons show ?thesis by auto
  qed
qed

lemma example_full_facts:
  "healthy example_full_queue" "db example_full_queue = Some example_full_db"
  "\<forall>rs. mset (scan_order example_full_db rs) = mset rs"
  "stored_rows example_full_queue = example_rows"
  "length (insert_sql (table example_full_queue)) < GEARMAN_QUEUE_QUERY_BUFFER"
  "length (select_sql (table example_full_queue)) < GEARMAN_QUEUE_QUERY_BUFFER"
  "length (delete_sql (table example_full_queue)) < GEARMAN_QUEUE_QUERY_BUFFER"
  "plain_name (table example_full_queue)"
  by (simp_all add: healthy_def stored_rows_def example_queue_def example_db_def
      example_full_defs strcasecmp_eq_def insert_sql_def select_sql_def delete_sql_def
      GEARMAN_QUEUE_QUERY_BUFFER_def plain_name_def ident_char_def ident_start_def)

text \<open>
  Where completing a job works. On a handle in working order whose table name is a word
  and whose statements fit the 256 bytes the buffer always has (a name of at most 204
  bytes), \<^verbatim>\<open>_sqlite_done\<close> succeeds for every key, stored or not. It leaves in the
  table exactly the rows with another key, in their order: nothing changes when the key
  is not stored, and with distinct keys exactly one row goes when it is. A replay right
  after it delivers the remaining rows and no job with the key.
\<close>

lemma done_removes_key_short_name:
  assumes h: "healthy queue" and dbq: "db queue = Some c"
    and plain: "plain_name (table queue)"
    and perm: "\<forall>rs. mset (scan_order c rs) = mset rs"
    and fits: "length (select_sql (table queue)) < GEARMAN_QUEUE_QUERY_BUFFER"
    and sz: "length unique < 2 ^ 31"
  shows "\<exists>queue' jobs queue''.
           sqlite_done alloc_always queue unique function_name = (Some GEARMAN_SUCCESS, queue')
         \<and> stored_rows queue' = filter (\<lambda>r. row_unique_key r \<noteq> unique) (stored_rows queue)
         \<and> (unique \<notin> row_unique_key ` set (stored_rows queue)
              \<longrightarrow> stored_rows queue' = stored_rows queue)
         \<and> (unique \<in> row_unique_key ` set (stored_rows queue)
              \<and> distinct (map row_unique_key (stored_rows queue))
              \<longrightarrow> length (stored_rows queue') + 1 = length (stored_rows queue))
         \<and> sqlite_replay alloc_always queue' record_job [] = (Some GEARMAN_SUCCESS, jobs, queue'')
         \<and> unique \<notin> fst ` set jobs
         \<and> mset jobs
             = mset (map row_job (filter (\<lambda>r. row_unique_key r \<noteq> unique) (stored_rows queue)))"
proof -
  let ?keep = "filter (\<lambda>r. row_unique_key r \<noteq> unique) (stored_rows queue)"
  have al: "\<And>n. alloc_always n" by (simp add: alloc_always_def)
  have fd: "length (delete_sql (table queue)) < GEARMAN_QUEUE_QUERY_BUFFER"
    using fits delete_shorter [of "table queue"] by simp
  from h dbq plain fd sz al obtain queue' c' where D:
    "sqlite_done alloc_always queue unique function_name = (Some GEARMAN_SUCCESS, queue')"
    "healthy queue'" "db queue' = Some c'" "in_trans queue' = 0" "table queue' = table queue"
    "scan_order c' = scan_order c" "stored_rows queue' = ?keep"
    by (rule sqlite_done_healthy)
  define jobs where "jobs = map row_job (scan_order c ?keep)"
  have plain': "plain_name (table queue')" using plain D(5) by simp
  from D(2,3) plain' fits al obtain queue'' where R:
    "sqlite_replay alloc_always queue' record_job [] = (Some GEARMAN_SUCCESS, jobs, queue'')"
    using sqlite_replay_healthy [of queue' c' alloc_always "[]"] D(5,6,7)
    by (auto simp: jobs_def)
  have ms: "mset jobs = mset (map row_job ?keep)"
  proof -
    have "mset jobs = image_mset row_job (mset (scan_order c ?keep))"
      by (simp add: jobs_def)
    also have "\<dots> = image_mset row_job (mset ?keep)"
      using perm by simp
    finally show ?thesis by simp
  qed
  have "set jobs = set (map row_job ?keep)"
    using ms by (rule mset_eq_setD)
  then have gone: "unique \<notin> fst ` set jobs"
    by (auto simp: row_job_def)
  have same: "unique \<notin> row_unique_key ` set (stored_rows queue) \<longrightarrow> ?keep = stored_rows queue"
    by (auto simp: filter_id_conv)
  have one: "unique \<in> row_unique_key ` set (stored_rows queue)
              \<and> distinct (map row_unique_key (stored_rows queue))
              \<longrightarrow> length ?keep + 1 = length (stored_rows queue)"
    using filter_one_less [of row_unique_key "stored_rows queue" unique] by blast
  from D(1,7) R ms gone same one show ?thesis by auto
qed


text \<open>Completing the first of two stored jobs, and a job that is not stored.\<close>

lemma done_removes_key_example:
  "healthy example_full_queue
   \<and> stored_rows example_full_queue = example_rows
   \<and> fst (sqlite_done alloc_always example_full_queue example_key []) = Some GEARMAN_SUCCESS
   \<and> stored_rows (snd (sqlite_done alloc_always example_full_queue example_key []))
       = [job_row [0x6A, 0x32] [0x77, 0x63] [] GEARMAN_JOB_PRIORITY_LOW]
   \<and> fst (snd (sqlite_replay alloc_always
                 (snd (sqlite_done alloc_always example_full_queue example_key []))
                 record_job []))
       = [([0x6A, 0x32], [0x77, 0x63], [], GEARMAN_JOB_PRIORITY_LOW)]
   \<and> fst (sqlite_done alloc_always example_full_queue [0x78] []) = Some GEARMAN_SUCCESS
   \<and> stored_rows (snd (sqlite_done alloc_always example_full_queue [0x78] [])) = example_rows"
proof -
  note f = example_full_facts
  have s1: "length example_key < 2 ^ 31" and s2: "length [0x78 :: 8 word] < 2 ^ 31"
    by (simp_all add: example_key_def)
  have k1: "filter (\<lambda>r. row_unique_key r \<noteq> example_key) example_rows
              = [job_row [0x6A, 0x32] [0x77, 0x63] [] GEARMAN_JOB_PRIORITY_LOW]"
    and k2: "filter (\<lambda>r. row_unique_key r \<noteq> [0x78]) example_rows = example_rows"
    and rj: "row_job (job_row [0x6A, 0x32] [0x77, 0x63] [] GEARMAN_JOB_PRIORITY_LOW)
              = ([0x6A, 0x32], [0x77, 0x63], [], GEARMAN_JOB_PRIORITY_LOW)"
    by (simp_all add: example_rows_def job_row_def row_job_def example_key_def
        priority_of_int64_enum GEARMAN_JOB_PRIORITY_LOW_def)
  from done_removes_key_short_name [OF f(1,2,8,3,6) s1, of "[]"]
       done_removes_key_short_name [OF f(1,2,8,3,6) s2, of "[]"]
  show ?thesis
    by (auto simp: f(1,4) k1 k2 rj)
qed




section \<open>Adding a key twice\<close>

lemma sqlite_add_status:
  "fst (sqlite_add alloc_ok queue unique function_name data priority)
     \<in> {None, Some GEARMAN_SUCCESS, Some GEARMAN_MEMORY_ALLOCATION_FAILURE,
         Some GEARMAN_QUEUE_ERROR}"
  by (auto simp: sqlite_add_def Let_def split: prod.splits option.splits if_splits)

lemma sqlite_add_duplicate:
  assumes h: "healthy queue" and dbq: "db queue = Some c"
    and fits: "length (insert_sql (table queue)) < GEARMAN_QUEUE_QUERY_BUFFER"
    and sz: "length unique < 2 ^ 31" "length function_name < 2 ^ 31" "length data < 2 ^ 31"
    and dup: "unique \<in> row_unique_key ` set (stored_rows queue)"
    and alloc: "\<And>n. alloc_ok n"
  obtains queue' where
    "sqlite_add alloc_ok queue unique function_name data priority = (Some GEARMAN_QUEUE_ERROR, queue')"
    "stored_rows queue' = stored_rows queue" "in_trans queue' \<noteq> 0"
proof -
  define needed where "needed = (length unique + length function_name + length data) * 2 + 256"
  have nd: "((length unique + length function_name + length data) * 2
              + GEARMAN_QUEUE_QUERY_BUFFER) mod SIZE_MODULUS = needed"
    unfolding needed_def by (rule add_needed [OF sz])
  have big: "256 \<le> needed" by (simp add: needed_def)
  let ?t = "table queue"
  from h dbq obtain qL cL where L: "sqlite_lock queue = (SQLITE_OK, qL)" "db qL = Some cL"
    "healthy qL" "in_trans qL \<noteq> 0" "catalog cL = catalog c" "scan_order cL = scan_order c"
    "table qL = table queue" "query qL = query queue" "query_size qL = query_size queue"
    by (rule healthy_after_lock)
  from L(2,3) have qn: "query qL = None \<longrightarrow> query_size qL = 0" and fl: "faults cL = []"
    and txn: "in_txn cL" and ex: "table_rows (catalog cL) (table qL) \<noteq> None"
    using L(4) by (auto simp: healthy_def)
  obtain q1 old where R: "realloc_query alloc_ok qL needed = Some q1"
    "query q1 = Some old" "db q1 = db qL" "table q1 = table qL"
    "in_trans q1 = in_trans qL" "query_size q1 = max (query_size qL) needed"
  proof (rule realloc_query_ok [OF _ _ qn, of alloc_ok needed])
    show "alloc_ok needed" by (rule alloc)
    show "0 < needed" using big by simp
  qed
  have sn: "snprintf (query q1) needed (insert_sql (table q1)) =
              Some (Some (insert_sql ?t), length (insert_sql ?t))"
    using fits R(2,4) L(7) big by (simp add: snprintf_def GEARMAN_QUEUE_QUERY_BUFFER_def)
  let ?q1' = "q1\<lparr>query := Some (insert_sql ?t)\<rparr>"
  let ?c2 = "cL\<lparr>trace := trace cL @ [insert_sql ?t]\<rparr>"
  let ?q3 = "?q1'\<lparr>db := Some ?c2\<rparr>"
  obtain rs where rs: "table_rows (catalog c) ?t = Some rs"
    using ex L(5,7) by auto
  then have st: "stored_rows queue = rs" using dbq by (simp add: stored_rows_def)
  have res: "sqlite_add alloc_ok queue unique function_name data priority = (Some GEARMAN_QUEUE_ERROR, ?q3)"
  proof (cases "plain_name ?t")
    case True
    have Q: "sqlite_query ?q1' (Some (insert_sql ?t)) (length (insert_sql ?t)) =
               (SQLITE_OK, Some (new_stmt (SQL_INSERT ?t)), ?q3)"
      using fits fl ex R(3) L(2,7)
      by (intro sqlite_query_ok)
         (auto simp: sql_parse_insert [OF True] prepare_ok_def GEARMAN_QUEUE_QUERY_BUFFER_def)
    let ?sth4 = "sqlite3_bind_blob
                   (sqlite3_bind_text
                      (sqlite3_bind_text
                         (sqlite3_bind_int (Some (new_stmt (SQL_INSERT ?t))) 1 priority)
                         2 unique) 3 function_name) 4 data"
    have S: "\<exists>s5. sqlite3_step ?sth4 (Some ?c2) = (SQLITE_CONSTRAINT, s5, Some ?c2)"
      using fl rs dup st L(5)
      by (simp add: sqlite3_step_def next_fault_def is_error_def exec_step_def new_stmt_def
          sqlite3_bind_def sqlite3_bind_int_def sqlite3_bind_text_def sqlite3_bind_blob_def)
    then obtain s5 where S5: "sqlite3_step ?sth4 (Some ?c2) = (SQLITE_CONSTRAINT, s5, Some ?c2)" ..
    show ?thesis
      unfolding sqlite_add_def L(1) nd
      using S5 by (simp add: R(1) sn Q Let_def)
  next
    case False
    then have np: "sql_parse (insert_sql ?t) = None"
      using sql_parse_insert_Some(2) [of ?t] by (cases "sql_parse (insert_sql ?t)") auto
    have Q: "sqlite_query ?q1' (Some (insert_sql ?t)) (length (insert_sql ?t)) =
               (SQLITE_ERROR, None, ?q3)"
      using fits fl R(3) L(2) np
      by (intro sqlite_query_refused) (auto simp: GEARMAN_QUEUE_QUERY_BUFFER_def)
    show ?thesis
      unfolding sqlite_add_def L(1) nd
      by (simp add: R(1) sn Q)
  qed
  show ?thesis
  proof (rule that [OF res])
    show "stored_rows ?q3 = stored_rows queue"
      using st rs R(4) L(5,7) by (simp add: stored_rows_def)
    show "in_trans ?q3 \<noteq> 0" using R(5) L(4) by simp
  qed
qed

text \<open>
  C3. On a handle in working order, adding a job whose key is already stored returns
  \<^verbatim>\<open>GEARMAN_QUEUE_ERROR\<close> and leaves the rows of the table as they were. The status is
  the one every driver failure gives, a failed BEGIN for one: \<^verbatim>\<open>_sqlite_add\<close> has no
  status of its own for a duplicate, its only statuses being success, allocation
  failure and \<^verbatim>\<open>GEARMAN_QUEUE_ERROR\<close>.
\<close>

theorem add_duplicate_key_fails:
  assumes h: "healthy queue" and dbq: "db queue = Some c"
    and fits: "length (insert_sql (table queue)) < GEARMAN_QUEUE_QUERY_BUFFER"
    and sz: "length unique < 2 ^ 31" "length function_name < 2 ^ 31" "length data < 2 ^ 31"
    and dup: "unique \<in> row_unique_key ` set (stored_rows queue)"
  shows "fst (sqlite_add alloc_always queue unique function_name data priority)
           = Some GEARMAN_QUEUE_ERROR
         \<and> stored_rows (snd (sqlite_add alloc_always queue unique function_name data priority))
             = stored_rows queue
         \<and> (\<forall>alloc_ok q u f d p.
               fst (sqlite_add alloc_ok q u f d p)
                 \<in> {None, Some GEARMAN_SUCCESS, Some GEARMAN_MEMORY_ALLOCATION_FAILURE,
                     Some GEARMAN_QUEUE_ERROR})
         \<and> (\<forall>alloc_ok q u f d p.
               fst (sqlite_lock q) \<noteq> SQLITE_OK
                 \<longrightarrow> fst (sqlite_add alloc_ok q u f d p) = Some GEARMAN_QUEUE_ERROR)"
proof -
  have al: "\<And>n. alloc_always n" by (simp add: alloc_always_def)
  from h dbq fits sz dup al obtain queue' where
    "sqlite_add alloc_always queue unique function_name data priority
       = (Some GEARMAN_QUEUE_ERROR, queue')"
    "stored_rows queue' = stored_rows queue"
    by (rule sqlite_add_duplicate)
  moreover have "fst (sqlite_lock q) \<noteq> SQLITE_OK
      \<Longrightarrow> fst (sqlite_add alloc_ok q u f d p) = Some GEARMAN_QUEUE_ERROR" for alloc_ok q u f d p
    by (auto simp: sqlite_add_def split: prod.splits)
  ultimately show ?thesis
    using sqlite_add_status by simp
qed

theorem add_duplicate_key_fails_witness:
  "example_key \<in> row_unique_key ` set (stored_rows example_full_queue)
   \<and> fst (sqlite_add alloc_always example_full_queue example_key [0x78] [0x01]
            GEARMAN_JOB_PRIORITY_LOW) = Some GEARMAN_QUEUE_ERROR
   \<and> stored_rows (snd (sqlite_add alloc_always example_full_queue example_key [0x78] [0x01]
                        GEARMAN_JOB_PRIORITY_LOW)) = example_rows
   \<and> fst (sqlite_lock (with_faults [SQLITE_BUSY] example_queue)) \<noteq> SQLITE_OK
   \<and> fst (sqlite_add alloc_always (with_faults [SQLITE_BUSY] example_queue) example_key
            example_function example_payload GEARMAN_JOB_PRIORITY_HIGH)
       = Some GEARMAN_QUEUE_ERROR"
proof -
  note f = example_full_facts
  have s: "length example_key < 2 ^ 31" "length [0x78 :: 8 word] < 2 ^ 31"
    "length [0x01 :: 8 word] < 2 ^ 31"
    by (simp_all add: example_key_def)
  have d: "example_key \<in> row_unique_key ` set (stored_rows example_full_queue)"
    by (simp add: f(4) example_rows_def job_row_def)
  have l: "fst (sqlite_lock (with_faults [SQLITE_BUSY] example_queue)) \<noteq> SQLITE_OK"
    by (simp add: driver_defs queue_defs example_defs)
  from add_duplicate_key_fails [OF f(1,2,5) s d, of GEARMAN_JOB_PRIORITY_LOW] d l show ?thesis
    by (simp add: f(4))
qed

section \<open>What every call does to the handle\<close>

text \<open>
  The facts of this section hold for every handle, allocator and script of driver
  results: they follow each callback through all its branches.
\<close>

lemma sqlite_lock_fields:
  assumes "sqlite_lock queue = (rc, queue')"
  shows "table queue' = table queue" "query queue' = query queue"
    "query_size queue' = query_size queue"
proof -
  obtain ret sth q1 where Q: "sqlite_query queue (Some ''BEGIN TRANSACTION'') SIZE_MAX = (ret, sth, q1)"
    by (cases "sqlite_query queue (Some ''BEGIN TRANSACTION'') SIZE_MAX")
  note f = sqlite_query_fields [OF Q]
  from assms Q f show "table queue' = table queue" "query queue' = query queue"
    "query_size queue' = query_size queue"
    by (auto simp: sqlite_lock_def split: if_splits prod.splits)
qed

lemma sqlite_commit_fields:
  assumes "sqlite_commit queue = (rc, queue')"
  shows "table queue' = table queue" "query queue' = query queue"
    "query_size queue' = query_size queue"
proof -
  obtain ret sth q1 where Q: "sqlite_query queue (Some ''COMMIT'') SIZE_MAX = (ret, sth, q1)"
    by (cases "sqlite_query queue (Some ''COMMIT'') SIZE_MAX")
  note f = sqlite_query_fields [OF Q]
  from assms Q f show "table queue' = table queue" "query queue' = query queue"
    "query_size queue' = query_size queue"
    by (auto simp: sqlite_commit_def split: if_splits prod.splits)
qed

lemma realloc_query_Some:
  assumes "realloc_query alloc_ok queue needed = Some q1"
  shows "query_size q1 = (if needed > query_size queue then needed else query_size queue)"
    "table q1 = table queue" "db q1 = db queue" "in_trans q1 = in_trans queue"
  using assms by (auto simp: realloc_query_def split: if_splits)

lemma realloc_query_None:
  "realloc_query alloc_ok queue needed = None \<longleftrightarrow> query_size queue < needed \<and> \<not> alloc_ok needed"
  by (auto simp: realloc_query_def)

text \<open>What the part of a callback after the resize does to the capacity: nothing.\<close>

lemma snprintf_Some:
  "snprintf buf n s = Some (buf', k) \<Longrightarrow> k = length s"
  by (auto simp: snprintf_def split: if_splits option.splits)

lemma sqlite_lock_open:
  assumes "sqlite_lock queue = (SQLITE_OK, queue')"
  shows "in_trans queue' \<noteq> 0"
proof (cases "in_trans queue = 0")
  case True
  from sqlite_lock_idle(2) [OF True assms] show ?thesis by simp
next
  case False
  with assms show ?thesis by (simp add: sqlite_lock_def)
qed

lemma issued_db_update:
  assumes "map_option trace dbc = map_option trace (db queue)"
  shows "issued (queue\<lparr>db := dbc\<rparr>) = issued queue"
  using assms by (auto simp: issued_def split: option.splits)

lemma sqlite_lock_issued:
  assumes "sqlite_lock queue = (rc, queue')"
  shows "set (issued queue') \<subseteq> set (issued queue) \<union> {''BEGIN TRANSACTION''}"
proof (cases "in_trans queue = 0")
  case True
  show ?thesis
  proof (cases "db queue")
    case None
    obtain ret sth q1 where Q: "sqlite_query queue (Some ''BEGIN TRANSACTION'') SIZE_MAX = (ret, sth, q1)"
      by (cases "sqlite_query queue (Some ''BEGIN TRANSACTION'') SIZE_MAX")
    with None have "ret = SQLITE_MISUSE" "q1 = queue\<lparr>db := None\<rparr>"
      by (auto simp: sqlite_query_def sqlite3_prepare_def)
    with assms True Q None show ?thesis
      by (auto simp: sqlite_lock_def issued_def)
  next
    case (Some c)
    with sqlite_lock_idle(3) [OF True assms] show ?thesis by simp
  qed
next
  case False
  with assms show ?thesis by (auto simp: sqlite_lock_def)
qed

lemma sqlite_commit_issued:
  assumes "sqlite_commit queue = (rc, queue')"
  shows "set (issued queue') \<subseteq> set (issued queue) \<union> {''COMMIT''}"
proof (cases "in_trans queue = 0")
  case False
  show ?thesis
  proof (cases "db queue")
    case None
    obtain ret sth q1 where Q: "sqlite_query queue (Some ''COMMIT'') SIZE_MAX = (ret, sth, q1)"
      by (cases "sqlite_query queue (Some ''COMMIT'') SIZE_MAX")
    with None have "ret = SQLITE_MISUSE" "q1 = queue\<lparr>db := None\<rparr>"
      by (auto simp: sqlite_query_def sqlite3_prepare_def)
    with assms False Q None show ?thesis
      by (auto simp: sqlite_commit_def issued_def)
  next
    case (Some c)
    with sqlite_commit_open(3) [OF False assms] show ?thesis by simp
  qed
next
  case True
  with assms show ?thesis by (auto simp: sqlite_commit_def)
qed

lemma sqlite_query_issued_prefix:
  assumes "sqlite_query queue buf n = (rc, sth, queue')"
  shows "issued queue' = issued queue
         \<or> (\<exists>s k. buf = Some s \<and> issued queue' = issued queue @ [take k s])"
proof (cases "db queue")
  case None
  with assms show ?thesis
    by (auto simp: sqlite_query_def sqlite3_prepare_def issued_def split: if_splits)
next
  case (Some c)
  show ?thesis
  proof (cases buf)
    case None
    with assms Some show ?thesis
      by (auto simp: sqlite_query_def sqlite3_prepare_def issued_def split: if_splits)
  next
    case s: (Some s)
    define tx where "tx = (if size_t_to_int n < 0 then s else take (nat (size_t_to_int n)) s)"
    have "\<exists>k. tx = take k s"
      unfolding tx_def by (cases "size_t_to_int n < 0") (auto intro: exI [of _ "length s"])
    moreover have "issued queue' = issued queue @ [tx]"
      using assms Some s
      by (auto simp: sqlite_query_def sqlite3_prepare_def issued_def Let_def tx_def
               split: if_splits prod.splits option.splits dest!: next_fault_trace)
    ultimately show ?thesis using s by auto
  qed
qed

lemma no_rollback_prefix:
  "take k (insert_sql t) \<noteq> ''ROLLBACK''"
  "take k (delete_sql t) \<noteq> ''ROLLBACK''"
  "take k (select_sql t) \<noteq> ''ROLLBACK''"
  by (cases k; simp add: insert_sql_def delete_sql_def select_sql_def)+

lemma sqlite_query_no_rollback:
  assumes Q: "sqlite_query (q1\<lparr>query := buf\<rparr>) buf n = (rc, sth, q2)"
    and buf: "buf = Some (take m s)" and s: "\<And>k. take k s \<noteq> ''ROLLBACK''"
    and nr: "''ROLLBACK'' \<notin> set (issued q1)"
  shows "''ROLLBACK'' \<notin> set (issued q2)"
proof -
  have same: "issued (q1\<lparr>query := buf\<rparr>) = issued q1" by (simp add: issued_def)
  from sqlite_query_issued_prefix [OF Q] consider
    "issued q2 = issued (q1\<lparr>query := buf\<rparr>)"
    | t k where "buf = Some t" "issued q2 = issued (q1\<lparr>query := buf\<rparr>) @ [take k t]"
    by blast
  then show ?thesis
  proof cases
    case 1
    with same nr show ?thesis by simp
  next
    case 2
    with buf have "take k t = take (min k m) s" by simp
    with s [of "min k m"] have "take k t \<noteq> ''ROLLBACK''" by simp
    with 2 same nr show ?thesis by simp
  qed
qed

lemma sqlite_add_facts:
  assumes A: "sqlite_add alloc_ok queue u f d p = (r, queue')"
  shows "(query_size queue' = query_size queue
           \<or> query_size queue < add_query_size u f d \<and> query_size queue' = add_query_size u f d)
         \<and> table queue' = table queue
         \<and> (fst (sqlite_lock queue) = SQLITE_OK \<and> r \<noteq> Some GEARMAN_SUCCESS
              \<longrightarrow> in_trans queue' \<noteq> 0)
         \<and> (add_query_size u f d \<noteq> 0 \<and> ''ROLLBACK'' \<notin> set (issued queue)
              \<longrightarrow> ''ROLLBACK'' \<notin> set (issued queue'))
         \<and> (fst (sqlite_lock queue) = SQLITE_OK \<and> query_size queue < add_query_size u f d
              \<and> \<not> alloc_ok (add_query_size u f d)
              \<longrightarrow> r = Some GEARMAN_MEMORY_ALLOCATION_FAILURE \<and> queue' = snd (sqlite_lock queue))"
proof -
  define needed where "needed = add_query_size u f d"
  have nd: "((length u + length f + length d) * 2 + GEARMAN_QUEUE_QUERY_BUFFER) mod SIZE_MODULUS
              = needed"
    by (simp add: needed_def add_query_size_def)
  obtain lrc qL where L: "sqlite_lock queue = (lrc, qL)" by (cases "sqlite_lock queue")
  note lf = sqlite_lock_fields [OF L] and li = sqlite_lock_issued [OF L]
  show ?thesis
  proof (cases "lrc \<noteq> SQLITE_OK")
    case True
    with A L lf li show ?thesis by (auto simp: sqlite_add_def)
  next
    case ok: False
    then have L': "sqlite_lock queue = (SQLITE_OK, qL)" using L by simp
    note op = sqlite_lock_open [OF L']
    show ?thesis
    proof (cases "realloc_query alloc_ok qL needed")
      case None
      then have "query_size qL < needed" "\<not> alloc_ok needed"
        by (simp_all add: realloc_query_None)
      with A L' None lf li op show ?thesis
        unfolding sqlite_add_def L' nd needed_def [symmetric]
        by (auto simp: Let_def)
    next
      case (Some q1)
      note rf = realloc_query_Some [OF Some]
      have grown: "\<not> (query_size queue < needed \<and> \<not> alloc_ok needed)"
        using Some lf(3) by (auto simp: realloc_query_def split: if_splits)
      have i1: "issued q1 = issued qL" using rf(3) by (simp add: issued_def)
      show ?thesis
      proof (cases "snprintf (query q1) needed (insert_sql (table q1))")
        case None
        with A L' Some rf lf li op i1 grown show ?thesis
          unfolding sqlite_add_def L' nd needed_def [symmetric]
          by (auto simp: Let_def split: if_splits)
      next
        case sn: (Some bn)
        obtain buf n where bn: "bn = (buf, n)" by (cases bn)
        obtain rc sth q2 where Q: "sqlite_query (q1\<lparr>query := buf\<rparr>) buf n = (rc, sth, q2)"
          by (cases "sqlite_query (q1\<lparr>query := buf\<rparr>) buf n")
        note qf = sqlite_query_fields [OF Q]
        have buf: "needed \<noteq> 0 \<Longrightarrow> buf = Some (take (needed - 1) (insert_sql (table q1)))"
          using sn bn by (auto simp: snprintf_def split: if_splits option.splits)
        have i2: "needed \<noteq> 0 \<Longrightarrow> ''ROLLBACK'' \<notin> set (issued q1)
                    \<Longrightarrow> ''ROLLBACK'' \<notin> set (issued q2)"
          using sqlite_query_no_rollback [OF Q buf no_rollback_prefix(1)] by blast
        let ?sth4 = "sqlite3_bind_blob (sqlite3_bind_text (sqlite3_bind_text
                       (sqlite3_bind_int sth 1 p) 2 u) 3 f) 4 d"
        obtain src sth5 dbc where S: "sqlite3_step ?sth4 (db q2) = (src, sth5, dbc)"
          by (cases "sqlite3_step ?sth4 (db q2)")
        note i3 = issued_db_update [OF sqlite3_step_facts(2) [OF S]]
        obtain crc q3 where C: "sqlite_commit (q2\<lparr>db := dbc\<rparr>) = (crc, q3)"
          by (cases "sqlite_commit (q2\<lparr>db := dbc\<rparr>)")
        note cf = sqlite_commit_fields [OF C] and ci = sqlite_commit_issued [OF C]
        have open2: "in_trans (q2\<lparr>db := dbc\<rparr>) \<noteq> 0" using qf(4) rf(4) op by simp
        note co = sqlite_commit_open(1) [OF open2 C]
        have res: "(r, queue') =
            (if rc \<noteq> SQLITE_OK then (Some GEARMAN_QUEUE_ERROR, q2)
             else if src \<noteq> SQLITE_DONE then (Some GEARMAN_QUEUE_ERROR, q2\<lparr>db := dbc\<rparr>)
             else if crc \<noteq> SQLITE_OK then (Some GEARMAN_QUEUE_ERROR, q3)
             else (Some GEARMAN_SUCCESS, q3))"
          using A S C unfolding sqlite_add_def L' nd
          by (auto simp: Some sn bn Q Let_def)
        have cap: "query_size queue' = query_size q1" and tb: "table queue' = table q1"
          using res qf cf by (auto split: if_splits)
        have fl: "r \<noteq> Some GEARMAN_SUCCESS \<longrightarrow> in_trans queue' \<noteq> 0"
          using res qf(4) rf(4) op co open2 by (auto split: if_splits)
        have iss: "needed \<noteq> 0 \<and> ''ROLLBACK'' \<notin> set (issued queue)
                     \<longrightarrow> ''ROLLBACK'' \<notin> set (issued queue')"
          using res i1 i2 i3 ci li by (auto split: if_splits)
        from cap tb fl iss rf(1,2) lf grown show ?thesis
          unfolding needed_def [symmetric] by (auto split: if_splits)
      qed
    qed
  qed
qed

lemma replay_rows_stop:
  assumes "sqlite3_step sth dbc = (rc, sth1, dbc1)" "rc \<noteq> SQLITE_ROW"
  shows "replay_rows alloc_ok add_fn ctx sth dbc = (Some GEARMAN_SUCCESS, ctx, dbc1)"
  using assms by (subst replay_rows.simps) simp

lemma replay_rows_crash:
  assumes "sqlite3_step sth dbc = (SQLITE_ROW, sth1, dbc1)"
    "0 < length (row_data (sqlite3_column_row sth1))"
    "\<not> alloc_ok (length (row_data (sqlite3_column_row sth1)))"
  shows "replay_rows alloc_ok add_fn ctx sth dbc = (None, ctx, dbc1)"
  using assms by (subst replay_rows.simps) (simp add: Let_def)

lemma replay_rows_fail:
  assumes "sqlite3_step sth dbc = (SQLITE_ROW, sth1, dbc1)"
    "\<not> (0 < length (row_data (sqlite3_column_row sth1))
        \<and> \<not> alloc_ok (length (row_data (sqlite3_column_row sth1))))"
    "add_fn ctx (row_unique_key (sqlite3_column_row sth1))
       (row_function_name (sqlite3_column_row sth1)) (row_data (sqlite3_column_row sth1))
       (priority_of_int64 (row_priority (sqlite3_column_row sth1))) = (gret, ctx1)"
    "gret \<noteq> GEARMAN_SUCCESS"
  shows "replay_rows alloc_ok add_fn ctx sth dbc = (Some gret, ctx1, dbc1)"
  using assms by (subst replay_rows.simps) (auto simp: Let_def)

lemma replay_rows_continue:
  assumes "sqlite3_step sth dbc = (SQLITE_ROW, sth1, dbc1)"
    "\<not> (0 < length (row_data (sqlite3_column_row sth1))
        \<and> \<not> alloc_ok (length (row_data (sqlite3_column_row sth1))))"
    "add_fn ctx (row_unique_key (sqlite3_column_row sth1))
       (row_function_name (sqlite3_column_row sth1)) (row_data (sqlite3_column_row sth1))
       (priority_of_int64 (row_priority (sqlite3_column_row sth1))) = (GEARMAN_SUCCESS, ctx1)"
  shows "replay_rows alloc_ok add_fn ctx sth dbc = replay_rows alloc_ok add_fn ctx1 sth1 dbc1"
  using assms by (subst replay_rows.simps) (auto simp: Let_def)

lemma replay_rows_cases_induct:
  fixes P :: "'c \<Rightarrow> sqlite3_stmt option \<Rightarrow> sqlite3 option
                \<Rightarrow> gearman_return_t option \<times> 'c \<times> sqlite3 option \<Rightarrow> bool"
  assumes stop: "\<And>ctx sth dbc rc sth1 dbc1.
      \<lbrakk>sqlite3_step sth dbc = (rc, sth1, dbc1); rc \<noteq> SQLITE_ROW\<rbrakk>
      \<Longrightarrow> P ctx sth dbc (Some GEARMAN_SUCCESS, ctx, dbc1)"
    and crash: "\<And>ctx sth dbc sth1 dbc1.
      \<lbrakk>sqlite3_step sth dbc = (SQLITE_ROW, sth1, dbc1);
        0 < length (row_data (sqlite3_column_row sth1));
        \<not> alloc_ok (length (row_data (sqlite3_column_row sth1)))\<rbrakk>
      \<Longrightarrow> P ctx sth dbc (None, ctx, dbc1)"
    and fail: "\<And>ctx sth dbc sth1 dbc1 gret ctx1.
      \<lbrakk>sqlite3_step sth dbc = (SQLITE_ROW, sth1, dbc1);
        \<not> (0 < length (row_data (sqlite3_column_row sth1))
            \<and> \<not> alloc_ok (length (row_data (sqlite3_column_row sth1))));
        add_fn ctx (row_unique_key (sqlite3_column_row sth1))
          (row_function_name (sqlite3_column_row sth1)) (row_data (sqlite3_column_row sth1))
          (priority_of_int64 (row_priority (sqlite3_column_row sth1))) = (gret, ctx1);
        gret \<noteq> GEARMAN_SUCCESS\<rbrakk>
      \<Longrightarrow> P ctx sth dbc (Some gret, ctx1, dbc1)"
    and continue: "\<And>ctx sth dbc sth1 dbc1 ctx1 res.
      \<lbrakk>sqlite3_step sth dbc = (SQLITE_ROW, sth1, dbc1);
        \<not> (0 < length (row_data (sqlite3_column_row sth1))
            \<and> \<not> alloc_ok (length (row_data (sqlite3_column_row sth1))));
        add_fn ctx (row_unique_key (sqlite3_column_row sth1))
          (row_function_name (sqlite3_column_row sth1)) (row_data (sqlite3_column_row sth1))
          (priority_of_int64 (row_priority (sqlite3_column_row sth1))) = (GEARMAN_SUCCESS, ctx1);
        P ctx1 sth1 dbc1 res\<rbrakk>
      \<Longrightarrow> P ctx sth dbc res"
  shows "P ctx sth dbc (replay_rows alloc_ok add_fn ctx sth dbc)"
proof (induction "remaining_rows sth dbc" arbitrary: ctx sth dbc rule: less_induct)
  case less
  obtain rc sth1 dbc1 where S: "sqlite3_step sth dbc = (rc, sth1, dbc1)"
    by (cases "sqlite3_step sth dbc")
  show ?case
  proof (cases "rc = SQLITE_ROW")
    case False
    from stop [OF S False] show ?thesis
      by (simp only: replay_rows_stop [OF S False])
  next
    case row: True
    let ?rw = "sqlite3_column_row sth1"
    from S row have S': "sqlite3_step sth dbc = (SQLITE_ROW, sth1, dbc1)" by simp
    show ?thesis
    proof (cases "0 < length (row_data ?rw) \<and> \<not> alloc_ok (length (row_data ?rw))")
      case True
      then have c: "0 < length (row_data ?rw)" "\<not> alloc_ok (length (row_data ?rw))" by simp_all
      from crash [OF S' c] show ?thesis
        by (simp only: replay_rows_crash [where alloc_ok = alloc_ok, OF S' c])
    next
      case al: False
      obtain gret ctx1 where F: "add_fn ctx (row_unique_key ?rw) (row_function_name ?rw)
                                   (row_data ?rw) (priority_of_int64 (row_priority ?rw)) = (gret, ctx1)"
        by (cases "add_fn ctx (row_unique_key ?rw) (row_function_name ?rw) (row_data ?rw)
                     (priority_of_int64 (row_priority ?rw))")
      show ?thesis
      proof (cases "gret = GEARMAN_SUCCESS")
        case False
        from fail [OF S' al F False] show ?thesis
          by (simp only: replay_rows_fail [where alloc_ok = alloc_ok and add_fn = add_fn, OF S' al F False])
      next
        case True
        note F' = F [unfolded True]
        have "remaining_rows sth1 dbc1 < remaining_rows sth dbc"
          using S' by (rule sqlite3_step_row)
        then have "P ctx1 sth1 dbc1 (replay_rows alloc_ok add_fn ctx1 sth1 dbc1)"
          by (rule less.hyps)
        from continue [OF S' al F' this] show ?thesis
          by (simp only: replay_rows_continue [where alloc_ok = alloc_ok and add_fn = add_fn, OF S' al F'])
      qed
    qed
  qed
qed

lemma replay_rows_trace:
  "map_option trace (snd (snd (replay_rows alloc_ok add_fn ctx sth dbc))) = map_option trace dbc"
  by (rule replay_rows_cases_induct [where P = "\<lambda>ctx sth dbc res. map_option trace (snd (snd res)) = map_option trace dbc"])
     (auto dest: sqlite3_step_facts(2))


lemma sqlite3_step_reads:
  assumes "sqlite3_step sth dbc = (rc, sth1, dbc1)" "stmt_reads sth"
  shows "map_option catalog dbc1 = map_option catalog dbc" "stmt_reads sth1"
  using assms
  by (auto simp: sqlite3_step_def stmt_reads_def exec_step_def
           split: option.splits prod.splits if_splits sql_cmd.splits
           dest!: next_fault_trace)

lemma replay_rows_catalog_imp:
  "stmt_reads sth \<longrightarrow>
     map_option catalog (snd (snd (replay_rows alloc_ok add_fn ctx sth dbc))) = map_option catalog dbc"
  by (rule replay_rows_cases_induct
        [where P = "\<lambda>ctx sth dbc res.
           stmt_reads sth \<longrightarrow> map_option catalog (snd (snd res)) = map_option catalog dbc"])
     (auto dest: sqlite3_step_reads)

lemma replay_rows_catalog:
  "stmt_reads sth \<Longrightarrow>
     map_option catalog (snd (snd (replay_rows alloc_ok add_fn ctx sth dbc))) = map_option catalog dbc"
  by (simp add: replay_rows_catalog_imp)

lemma sqlite_query_catalog:
  assumes "sqlite_query queue buf n = (rc, sth, queue')"
  shows "map_option catalog (db queue') = map_option catalog (db queue)"
  using assms
  by (auto simp: sqlite_query_def sqlite3_prepare_def Let_def
           split: prod.splits if_splits option.splits dest!: next_fault_trace)

lemma select_prefix_not_catalog: "take j (select_sql t) \<noteq> catalog_sql"
proof
  assume "take j (select_sql t) = catalog_sql"
  then have "take 8 (take j (select_sql t)) = take 8 catalog_sql" by simp
  then have e: "take (min 8 j) (select_sql t) = ''SELECT n''"
    by (simp add: catalog_sql_def)
  then have "length (take (min 8 j) (select_sql t)) = 8" by simp
  then have "8 \<le> j" by simp
  then have "min 8 j = 8" by simp
  with e show False by (simp add: select_sql_def)
qed

lemma sql_parse_select_prefix:
  "sql_parse (take j (select_sql t)) = None
   \<or> (\<exists>t'. sql_parse (take j (select_sql t)) = Some (SQL_SELECT t'))"
proof (cases j)
  case 0
  then show ?thesis by (simp add: sql_parse_def catalog_sql_def)
next
  case (Suc j')
  then obtain rest where s: "take j (select_sql t) = CHR ''S'' # rest"
    by (simp add: select_sql_def)
  show ?thesis
    using select_prefix_not_catalog [of j t]
    unfolding sql_parse_def s
    by (auto split: option.splits)
qed

lemma sqlite3_prepare_stmt:
  assumes "sqlite3_prepare dbc (Some s) nb = (rc, sth, dbc')"
  shows "sth = None \<or> (\<exists>k cmd. sql_parse (take k s) = Some cmd \<and> sth = Some (new_stmt cmd))"
proof (cases dbc)
  case None
  with assms show ?thesis by (simp add: sqlite3_prepare_def)
next
  case (Some c)
  define tx where "tx = (if nb < 0 then s else take (nat nb) s)"
  have "\<exists>k. tx = take k s"
    unfolding tx_def by (cases "nb < 0") (auto intro: exI [of _ "length s"])
  then obtain k where k: "tx = take k s" ..
  obtain f c1 where nf: "next_fault (c\<lparr>trace := trace c @ [tx]\<rparr>) = (f, c1)"
    by (cases "next_fault (c\<lparr>trace := trace c @ [tx]\<rparr>)")
  have "sqlite3_prepare dbc (Some s) nb =
          (if is_error f then (f, None, Some c1)
           else (case sql_parse tx of
                   None \<Rightarrow> (SQLITE_ERROR, None, Some c1)
                 | Some cmd \<Rightarrow>
                     if prepare_ok cmd c1 then (SQLITE_OK, Some (new_stmt cmd), Some c1)
                     else (SQLITE_ERROR, None, Some c1)))"
    using nf unfolding tx_def
    by (cases "nb < 0") (simp_all add: sqlite3_prepare_def Some Let_def)
  with assms k show ?thesis
    by (auto split: if_splits option.splits)
qed

lemma sqlite_query_select_reads:
  assumes Q: "sqlite_query queue (Some (take m (select_sql t))) n = (rc, sth, queue')"
  shows "stmt_reads sth"
proof -
  obtain prc psth pdb where P:
    "sqlite3_prepare (db queue) (Some (take m (select_sql t))) (size_t_to_int n) = (prc, psth, pdb)"
    by (cases "sqlite3_prepare (db queue) (Some (take m (select_sql t))) (size_t_to_int n)")
  from Q P have "sth = None \<or> sth = psth"
    by (auto simp: sqlite_query_def split: if_splits)
  moreover from sqlite3_prepare_stmt [OF P]
  have "psth = None \<or> (\<exists>k cmd. sql_parse (take (min k m) (select_sql t)) = Some cmd
                                  \<and> psth = Some (new_stmt cmd))"
    by simp
  then have "stmt_reads psth"
  proof
    assume "psth = None"
    then show ?thesis by (simp add: stmt_reads_def)
  next
    assume "\<exists>k cmd. sql_parse (take (min k m) (select_sql t)) = Some cmd
                     \<and> psth = Some (new_stmt cmd)"
    then obtain k cmd where kc: "sql_parse (take (min k m) (select_sql t)) = Some cmd"
      "psth = Some (new_stmt cmd)" by blast
    with sql_parse_select_prefix [of "min k m" t] obtain t' where "cmd = SQL_SELECT t'"
      by auto
    with kc(2) show ?thesis by (simp add: stmt_reads_def new_stmt_def)
  qed
  ultimately show ?thesis by (auto simp: stmt_reads_def)
qed

lemma sqlite_replay_facts:
  assumes R: "sqlite_replay alloc_ok queue add_fn ctx = (r, ctx', queue')"
  shows "(query_size queue' = query_size queue
           \<or> query_size queue < GEARMAN_QUEUE_QUERY_BUFFER
              \<and> query_size queue' = GEARMAN_QUEUE_QUERY_BUFFER)
         \<and> table queue' = table queue
         \<and> in_trans queue' = in_trans queue
         \<and> (''ROLLBACK'' \<notin> set (issued queue) \<longrightarrow> ''ROLLBACK'' \<notin> set (issued queue'))
         \<and> (query_size queue < GEARMAN_QUEUE_QUERY_BUFFER \<and> \<not> alloc_ok GEARMAN_QUEUE_QUERY_BUFFER
              \<longrightarrow> r = Some GEARMAN_MEMORY_ALLOCATION_FAILURE \<and> ctx' = ctx \<and> queue' = queue)
         \<and> map_option catalog (db queue') = map_option catalog (db queue)"
proof (cases "realloc_query alloc_ok queue GEARMAN_QUEUE_QUERY_BUFFER")
  case None
  then have "query_size queue < GEARMAN_QUEUE_QUERY_BUFFER" "\<not> alloc_ok GEARMAN_QUEUE_QUERY_BUFFER"
    by (simp_all add: realloc_query_None)
  with R None show ?thesis by (simp add: sqlite_replay_def)
next
  case (Some q1)
  note rf = realloc_query_Some [OF Some]
  have grown: "\<not> (query_size queue < GEARMAN_QUEUE_QUERY_BUFFER
                    \<and> \<not> alloc_ok GEARMAN_QUEUE_QUERY_BUFFER)"
    using Some by (auto simp: realloc_query_def split: if_splits)
  have i1: "issued q1 = issued queue" using rf(3) by (simp add: issued_def)
  show ?thesis
  proof (cases "snprintf (query q1) GEARMAN_QUEUE_QUERY_BUFFER (select_sql (table q1))")
    case None
    with R Some rf grown i1 show ?thesis
      by (auto simp: sqlite_replay_def split: if_splits)
  next
    case sn: (Some bn)
    obtain buf n where bn: "bn = (buf, n)" by (cases bn)
    have buf: "buf = Some (take (GEARMAN_QUEUE_QUERY_BUFFER - 1) (select_sql (table q1)))"
      using sn bn
      by (auto simp: snprintf_def GEARMAN_QUEUE_QUERY_BUFFER_def split: if_splits option.splits)
    obtain rc sth q2 where Q: "sqlite_query (q1\<lparr>query := buf\<rparr>) buf n = (rc, sth, q2)"
      by (cases "sqlite_query (q1\<lparr>query := buf\<rparr>) buf n")
    note qf = sqlite_query_fields [OF Q]
    have i2: "''ROLLBACK'' \<notin> set (issued q1) \<Longrightarrow> ''ROLLBACK'' \<notin> set (issued q2)"
      using sqlite_query_no_rollback [OF Q buf no_rollback_prefix(3)] by blast
    have rd: "stmt_reads sth"
      using Q unfolding buf by (rule sqlite_query_select_reads)
    have c2: "map_option catalog (db q2) = map_option catalog (db queue)"
      using sqlite_query_catalog [OF Q] rf(3) by simp
    obtain gret cx dbc where RR: "replay_rows alloc_ok add_fn ctx sth (db q2) = (gret, cx, dbc)"
      by (cases "replay_rows alloc_ok add_fn ctx sth (db q2)")
    have t3: "map_option trace dbc = map_option trace (db q2)"
      using replay_rows_trace [of alloc_ok add_fn ctx sth "db q2"] RR by simp
    have c3: "map_option catalog dbc = map_option catalog (db q2)"
      using replay_rows_catalog [OF rd, of alloc_ok add_fn ctx "db q2"] RR by simp
    note i3 = issued_db_update [OF t3]
    have res: "(r, ctx', queue') =
        (if rc \<noteq> SQLITE_OK then (Some GEARMAN_QUEUE_ERROR, ctx, q2)
         else (gret, cx, q2\<lparr>db := dbc\<rparr>))"
      using R RR unfolding sqlite_replay_def
      by (auto simp: Some sn bn Q)
    from res qf rf i1 i2 i3 c2 c3 grown show ?thesis
      by (auto split: if_splits)
  qed
qed

lemma sqlite_done_facts:
  assumes A: "sqlite_done alloc_ok queue u f = (r, queue')"
  shows "(query_size queue' = query_size queue
           \<or> query_size queue < done_query_size u \<and> query_size queue' = done_query_size u)
         \<and> table queue' = table queue
         \<and> (fst (sqlite_lock queue) = SQLITE_OK \<and> r \<noteq> Some GEARMAN_SUCCESS
              \<longrightarrow> in_trans queue' \<noteq> 0)
         \<and> (done_query_size u \<noteq> 0 \<and> ''ROLLBACK'' \<notin> set (issued queue)
              \<longrightarrow> ''ROLLBACK'' \<notin> set (issued queue'))
         \<and> (fst (sqlite_lock queue) = SQLITE_OK \<and> query_size queue < done_query_size u
              \<and> \<not> alloc_ok (done_query_size u)
              \<longrightarrow> r = Some GEARMAN_MEMORY_ALLOCATION_FAILURE \<and> queue' = snd (sqlite_lock queue))"
proof -
  define needed where "needed = done_query_size u"
  have nd: "(length u * 2 + GEARMAN_QUEUE_QUERY_BUFFER) mod SIZE_MODULUS = needed"
    by (simp add: needed_def done_query_size_def)
  obtain lrc qL where L: "sqlite_lock queue = (lrc, qL)" by (cases "sqlite_lock queue")
  note lf = sqlite_lock_fields [OF L] and li = sqlite_lock_issued [OF L]
  show ?thesis
  proof (cases "lrc \<noteq> SQLITE_OK")
    case True
    with A L lf li show ?thesis by (auto simp: sqlite_done_def)
  next
    case ok: False
    then have L': "sqlite_lock queue = (SQLITE_OK, qL)" using L by simp
    note op = sqlite_lock_open [OF L']
    show ?thesis
    proof (cases "realloc_query alloc_ok qL needed")
      case None
      then have "query_size qL < needed" "\<not> alloc_ok needed"
        by (simp_all add: realloc_query_None)
      with A L' None lf li op show ?thesis
        unfolding sqlite_done_def L' nd needed_def [symmetric]
        by (auto simp: Let_def)
    next
      case (Some q1)
      note rf = realloc_query_Some [OF Some]
      have grown: "\<not> (query_size queue < needed \<and> \<not> alloc_ok needed)"
        using Some lf(3) by (auto simp: realloc_query_def split: if_splits)
      have i1: "issued q1 = issued qL" using rf(3) by (simp add: issued_def)
      show ?thesis
      proof (cases "snprintf (query q1) needed (delete_sql (table q1))")
        case None
        with A L' Some rf lf li op i1 grown show ?thesis
          unfolding sqlite_done_def L' nd needed_def [symmetric]
          by (auto simp: Let_def split: if_splits)
      next
        case sn: (Some bn)
        obtain buf n where bn: "bn = (buf, n)" by (cases bn)
        obtain rc sth q2 where Q: "sqlite_query (q1\<lparr>query := buf\<rparr>) buf n = (rc, sth, q2)"
          by (cases "sqlite_query (q1\<lparr>query := buf\<rparr>) buf n")
        note qf = sqlite_query_fields [OF Q]
        have buf: "needed \<noteq> 0 \<Longrightarrow> buf = Some (take (needed - 1) (delete_sql (table q1)))"
          using sn bn by (auto simp: snprintf_def split: if_splits option.splits)
        have i2: "needed \<noteq> 0 \<Longrightarrow> ''ROLLBACK'' \<notin> set (issued q1)
                    \<Longrightarrow> ''ROLLBACK'' \<notin> set (issued q2)"
          using sqlite_query_no_rollback [OF Q buf no_rollback_prefix(2)] by blast
        let ?sth1 = "sqlite3_bind_text sth 1 u"
        obtain src sth5 dbc where S: "sqlite3_step ?sth1 (db q2) = (src, sth5, dbc)"
          by (cases "sqlite3_step ?sth1 (db q2)")
        note i3 = issued_db_update [OF sqlite3_step_facts(2) [OF S]]
        obtain crc q3 where C: "sqlite_commit (q2\<lparr>db := dbc\<rparr>) = (crc, q3)"
          by (cases "sqlite_commit (q2\<lparr>db := dbc\<rparr>)")
        note cf = sqlite_commit_fields [OF C] and ci = sqlite_commit_issued [OF C]
        have open2: "in_trans (q2\<lparr>db := dbc\<rparr>) \<noteq> 0" using qf(4) rf(4) op by simp
        note co = sqlite_commit_open(1) [OF open2 C]
        have res: "(r, queue') =
            (if rc \<noteq> SQLITE_OK then (Some GEARMAN_QUEUE_ERROR, q2)
             else if src \<noteq> SQLITE_DONE then (Some GEARMAN_QUEUE_ERROR, q2\<lparr>db := dbc\<rparr>)
             else if crc \<noteq> SQLITE_OK then (Some GEARMAN_QUEUE_ERROR, q3)
             else (Some GEARMAN_SUCCESS, q3))"
          using A S C unfolding sqlite_done_def L' nd
          by (auto simp: Some sn bn Q Let_def)
        have cap: "query_size queue' = query_size q1" and tb: "table queue' = table q1"
          using res qf cf by (auto split: if_splits)
        have fl: "r \<noteq> Some GEARMAN_SUCCESS \<longrightarrow> in_trans queue' \<noteq> 0"
          using res qf(4) rf(4) op co open2 by (auto split: if_splits)
        have iss: "needed \<noteq> 0 \<and> ''ROLLBACK'' \<notin> set (issued queue)
                     \<longrightarrow> ''ROLLBACK'' \<notin> set (issued queue')"
          using res i1 i2 i3 ci li by (auto split: if_splits)
        from cap tb fl iss rf(1,2) lf grown show ?thesis
          unfolding needed_def [symmetric] by (auto split: if_splits)
      qed
    qed
  qed
qed


lemma run_op_capacity:
  "query_size (fst qc) \<le> query_size (fst (snd (run_op alloc_ok op qc)))"
proof (cases op)
  case (OpAdd u f d p)
  obtain r q' where A: "sqlite_add alloc_ok (fst qc) u f d p = (r, q')"
    by (cases "sqlite_add alloc_ok (fst qc) u f d p")
  from sqlite_add_facts [OF A] OpAdd A show ?thesis
    by (auto simp: run_op_def)
next
  case (OpDone u f)
  obtain r q' where D: "sqlite_done alloc_ok (fst qc) u f = (r, q')"
    by (cases "sqlite_done alloc_ok (fst qc) u f")
  from sqlite_done_facts [OF D] OpDone D show ?thesis
    by (auto simp: run_op_def)
next
  case (OpReplay add_fn)
  obtain r ctx' q' where R: "sqlite_replay alloc_ok (fst qc) add_fn (snd qc) = (r, ctx', q')"
    by (cases "sqlite_replay alloc_ok (fst qc) add_fn (snd qc)") auto
  from sqlite_replay_facts [OF R] OpReplay R show ?thesis
    by (auto simp: run_op_def)
qed

lemma run_ops_capacity:
  "query_size (fst qc) \<le> query_size (fst (run_ops ops qc))"
proof (induction ops arbitrary: qc)
  case Nil
  then show ?case by simp
next
  case (Cons aop ops)
  obtain alloc_ok op where aop: "aop = (alloc_ok, op)" by (cases aop)
  obtain r q' ctx' where R: "run_op alloc_ok op qc = (r, q', ctx')"
    by (cases "run_op alloc_ok op qc") auto
  have le: "query_size (fst qc) \<le> query_size q'"
    using run_op_capacity [of qc alloc_ok op] R by simp
  show ?case
  proof (cases r)
    case None
    with aop R le show ?thesis by simp
  next
    case (Some st)
    from Cons.IH [of "(q', ctx')"] have "query_size q' \<le> query_size (fst (run_ops ops (q', ctx')))"
      by simp
    with aop R Some le show ?thesis by simp
  qed
qed


section \<open>The query buffer\<close>

text \<open>
  C7, as the code has it. Over any sequence of add, done and replay calls the recorded
  capacity of the query buffer never decreases, and a single call leaves it as it was or
  raises it to the size asked for, which then exceeded it. When the resize fails, replay
  returns \<^verbatim>\<open>GEARMAN_MEMORY_ALLOCATION_FAILURE\<close> with the handle and the callback context
  untouched; add and done return it with the handle as \<^verbatim>\<open>_sqlite_lock\<close> left it, which
  keeps the table name, the buffer and its capacity, but has opened a transaction where
  none was open.
\<close>

theorem query_buffer_capacity:
  "query_size queue \<le> query_size (fst (run_ops ops (queue, ctx)))
   \<and> (query_size (snd (sqlite_add alloc_ok queue u f d p)) = query_size queue
        \<or> query_size queue < add_query_size u f d
           \<and> query_size (snd (sqlite_add alloc_ok queue u f d p)) = add_query_size u f d)
   \<and> (query_size (snd (sqlite_done alloc_ok queue u f)) = query_size queue
        \<or> query_size queue < done_query_size u
           \<and> query_size (snd (sqlite_done alloc_ok queue u f)) = done_query_size u)
   \<and> (query_size (snd (snd (sqlite_replay alloc_ok queue add_fn ctx))) = query_size queue
        \<or> query_size queue < GEARMAN_QUEUE_QUERY_BUFFER
           \<and> query_size (snd (snd (sqlite_replay alloc_ok queue add_fn ctx)))
               = GEARMAN_QUEUE_QUERY_BUFFER)
   \<and> (fst (sqlite_lock queue) = SQLITE_OK \<and> query_size queue < add_query_size u f d
        \<and> \<not> alloc_ok (add_query_size u f d)
        \<longrightarrow> sqlite_add alloc_ok queue u f d p
              = (Some GEARMAN_MEMORY_ALLOCATION_FAILURE, snd (sqlite_lock queue)))
   \<and> (fst (sqlite_lock queue) = SQLITE_OK \<and> query_size queue < done_query_size u
        \<and> \<not> alloc_ok (done_query_size u)
        \<longrightarrow> sqlite_done alloc_ok queue u f
              = (Some GEARMAN_MEMORY_ALLOCATION_FAILURE, snd (sqlite_lock queue)))
   \<and> (query_size queue < GEARMAN_QUEUE_QUERY_BUFFER \<and> \<not> alloc_ok GEARMAN_QUEUE_QUERY_BUFFER
        \<longrightarrow> sqlite_replay alloc_ok queue add_fn ctx
              = (Some GEARMAN_MEMORY_ALLOCATION_FAILURE, ctx, queue))
   \<and> table (snd (sqlite_lock queue)) = table queue
   \<and> query (snd (sqlite_lock queue)) = query queue
   \<and> query_size (snd (sqlite_lock queue)) = query_size queue"
proof -
  obtain ra qa where A: "sqlite_add alloc_ok queue u f d p = (ra, qa)"
    by (cases "sqlite_add alloc_ok queue u f d p")
  obtain rd qd where D: "sqlite_done alloc_ok queue u f = (rd, qd)"
    by (cases "sqlite_done alloc_ok queue u f")
  obtain rr cr qr where R: "sqlite_replay alloc_ok queue add_fn ctx = (rr, cr, qr)"
    by (cases "sqlite_replay alloc_ok queue add_fn ctx") auto
  obtain lrc ql where L: "sqlite_lock queue = (lrc, ql)" by (cases "sqlite_lock queue")
  from run_ops_capacity [of "(queue, ctx)" ops] sqlite_add_facts [OF A] sqlite_done_facts [OF D]
    sqlite_replay_facts [OF R] sqlite_lock_fields [OF L]
  show ?thesis
    by (simp add: A D R L)
qed

text \<open>
  C7 as the specification words it does not hold: an add on an idle handle whose resize
  fails returns the allocation error with the transaction flag raised and BEGIN sent.
\<close>

theorem resize_failure_changes_handle_counterexample:
  "fst (sqlite_add alloc_never example_queue example_key example_function example_payload
          GEARMAN_JOB_PRIORITY_HIGH) = Some GEARMAN_MEMORY_ALLOCATION_FAILURE
   \<and> in_trans example_queue = 0
   \<and> in_trans (snd (sqlite_add alloc_never example_queue example_key example_function
                      example_payload GEARMAN_JOB_PRIORITY_HIGH)) = 1
   \<and> issued (snd (sqlite_add alloc_never example_queue example_key example_function
                    example_payload GEARMAN_JOB_PRIORITY_HIGH)) = [''BEGIN TRANSACTION'']
   \<and> snd (sqlite_add alloc_never example_queue example_key example_function example_payload
            GEARMAN_JOB_PRIORITY_HIGH) \<noteq> example_queue"
  by (simp add: driver_defs queue_defs example_defs)

theorem query_buffer_capacity_witness:
  "query_size example_queue = 0
   \<and> query_size (fst (run_ops example_ops (example_queue, []))) = 286
   \<and> snd (run_ops example_ops (example_queue, []))
       = [(example_key, example_function, example_payload, GEARMAN_JOB_PRIORITY_HIGH)]
   \<and> fst (sqlite_lock example_queue) = SQLITE_OK
   \<and> query_size example_queue < add_query_size example_key example_function example_payload
   \<and> \<not> alloc_never (add_query_size example_key example_function example_payload)
   \<and> sqlite_add alloc_never example_queue example_key example_function example_payload
        GEARMAN_JOB_PRIORITY_HIGH
       = (Some GEARMAN_MEMORY_ALLOCATION_FAILURE, snd (sqlite_lock example_queue))
   \<and> sqlite_done alloc_never example_queue example_key []
       = (Some GEARMAN_MEMORY_ALLOCATION_FAILURE, snd (sqlite_lock example_queue))
   \<and> sqlite_replay alloc_never example_queue record_job []
       = (Some GEARMAN_MEMORY_ALLOCATION_FAILURE, [], example_queue)"
  using query_buffer_capacity
          [of example_queue example_ops "[]" alloc_never example_key example_function
              example_payload GEARMAN_JOB_PRIORITY_HIGH record_job]
  by (simp add: driver_defs queue_defs example_defs example_ops_def run_op_def
      add_query_size_def done_query_size_def replay_rows.simps priority_of_int64_enum
      GEARMAN_JOB_PRIORITY_HIGH_def Let_def)

section \<open>No rollback\<close>

lemma query_sizes_positive:
  assumes "length u < 2 ^ 31" "length f < 2 ^ 31" "length d < 2 ^ 31"
  shows "add_query_size u f d \<noteq> 0" "done_query_size u \<noteq> 0"
  using assms
  by (simp_all add: add_query_size_def done_query_size_def GEARMAN_QUEUE_QUERY_BUFFER_def
      SIZE_MODULUS_def)

text \<open>
  C5. No call sends ROLLBACK: with byte counts within the driver's \<^verbatim>\<open>int\<close>, the
  statements a connection has seen after add, done, replay, flush, lock or commit hold
  no ROLLBACK unless they held one before. Once \<^verbatim>\<open>_sqlite_lock\<close> has succeeded, an
  add or a done that does not end in success leaves the transaction flag open, whatever
  failed on the way (the resize, the prepare, the step, the commit); replay and flush
  never touch the flag, lock never lowers it, and a commit that fails keeps it. So the
  flag returns to idle only through a commit that succeeds.
\<close>

theorem no_rollback_flag_stays_open:
  assumes sz: "length u < 2 ^ 31" "length f < 2 ^ 31" "length d < 2 ^ 31"
    and nr: "''ROLLBACK'' \<notin> set (issued queue)"
  shows "''ROLLBACK'' \<notin> set (issued (snd (sqlite_add alloc_ok queue u f d p)))
         \<and> ''ROLLBACK'' \<notin> set (issued (snd (sqlite_done alloc_ok queue u f)))
         \<and> ''ROLLBACK'' \<notin> set (issued (snd (snd (sqlite_replay alloc_ok queue add_fn ctx))))
         \<and> ''ROLLBACK'' \<notin> set (issued (snd (sqlite_flush queue)))
         \<and> ''ROLLBACK'' \<notin> set (issued (snd (sqlite_lock queue)))
         \<and> ''ROLLBACK'' \<notin> set (issued (snd (sqlite_commit queue)))
         \<and> (fst (sqlite_lock queue) = SQLITE_OK
              \<and> fst (sqlite_add alloc_ok queue u f d p) \<noteq> Some GEARMAN_SUCCESS
              \<longrightarrow> in_trans (snd (sqlite_add alloc_ok queue u f d p)) \<noteq> 0)
         \<and> (fst (sqlite_lock queue) = SQLITE_OK
              \<and> fst (sqlite_done alloc_ok queue u f) \<noteq> Some GEARMAN_SUCCESS
              \<longrightarrow> in_trans (snd (sqlite_done alloc_ok queue u f)) \<noteq> 0)
         \<and> in_trans (snd (snd (sqlite_replay alloc_ok queue add_fn ctx))) = in_trans queue
         \<and> in_trans (snd (sqlite_flush queue)) = in_trans queue
         \<and> (in_trans queue \<noteq> 0 \<longrightarrow> sqlite_lock queue = (SQLITE_OK, queue))
         \<and> (in_trans queue \<noteq> 0 \<and> fst (sqlite_commit queue) \<noteq> SQLITE_OK
              \<longrightarrow> in_trans (snd (sqlite_commit queue)) = in_trans queue)"
proof -
  obtain ra qa where A: "sqlite_add alloc_ok queue u f d p = (ra, qa)"
    by (cases "sqlite_add alloc_ok queue u f d p")
  obtain rd qd where D: "sqlite_done alloc_ok queue u f = (rd, qd)"
    by (cases "sqlite_done alloc_ok queue u f")
  obtain rr cr qr where R: "sqlite_replay alloc_ok queue add_fn ctx = (rr, cr, qr)"
    by (cases "sqlite_replay alloc_ok queue add_fn ctx") auto
  obtain lrc ql where L: "sqlite_lock queue = (lrc, ql)" by (cases "sqlite_lock queue")
  obtain crc qc where C: "sqlite_commit queue = (crc, qc)" by (cases "sqlite_commit queue")
  note pos = query_sizes_positive [OF sz]
  have l: "''ROLLBACK'' \<notin> set (issued ql)" using sqlite_lock_issued [OF L] nr by auto
  have c: "''ROLLBACK'' \<notin> set (issued qc)" using sqlite_commit_issued [OF C] nr by auto
  have lo: "in_trans queue \<noteq> 0 \<longrightarrow> sqlite_lock queue = (SQLITE_OK, queue)"
    by (simp add: sqlite_lock_def)
  have co: "in_trans queue \<noteq> 0 \<and> crc \<noteq> SQLITE_OK \<longrightarrow> in_trans qc = in_trans queue"
    using sqlite_commit_open(1) [OF _ C] by blast
  from sqlite_add_facts [OF A] sqlite_done_facts [OF D] sqlite_replay_facts [OF R] pos nr l c lo co
  show ?thesis
    by (simp add: A D R L C sqlite_flush_def)
qed

theorem no_rollback_flag_stays_open_witness:
  "''ROLLBACK'' \<notin> set (issued (with_faults [0, 0, 0, SQLITE_BUSY] example_queue))
   \<and> fst (sqlite_lock (with_faults [0, 0, 0, SQLITE_BUSY] example_queue)) = SQLITE_OK
   \<and> fst (sqlite_add alloc_always (with_faults [0, 0, 0, SQLITE_BUSY] example_queue)
            example_key example_function example_payload GEARMAN_JOB_PRIORITY_HIGH)
       = Some GEARMAN_QUEUE_ERROR
   \<and> in_trans (snd (sqlite_add alloc_always (with_faults [0, 0, 0, SQLITE_BUSY] example_queue)
                      example_key example_function example_payload GEARMAN_JOB_PRIORITY_HIGH))
       = 1
   \<and> issued (snd (sqlite_add alloc_always (with_faults [0, 0, 0, SQLITE_BUSY] example_queue)
                    example_key example_function example_payload GEARMAN_JOB_PRIORITY_HIGH))
       = [''BEGIN TRANSACTION'',
          ''INSERT INTO gearman_queue (priority,unique_key,function_name,data) VALUES (?,?,?,?)'']"
proof -
  have s: "length example_key < 2 ^ 31" "length example_function < 2 ^ 31"
    "length example_payload < 2 ^ 31"
    by (simp_all add: example_defs)
  have n: "''ROLLBACK'' \<notin> set (issued (with_faults [0, 0, 0, SQLITE_BUSY] example_queue))"
    by (simp add: example_defs)
  from no_rollback_flag_stays_open
         [OF s n, of alloc_always GEARMAN_JOB_PRIORITY_HIGH record_job "[]"] n
  show ?thesis
    by (simp add: driver_defs queue_defs example_defs GEARMAN_JOB_PRIORITY_HIGH_def Let_def)
qed

section \<open>Replaying\<close>

lemma logged_result:
  assumes "logged add_fn (c0, l0) u f d p = (gret, ctx1)"
  shows "add_fn c0 u f d p = (gret, fst ctx1)" "snd ctx1 = l0 @ [((u, f, d, p), gret)]"
  using assms by (auto simp: logged_def split: prod.splits)

lemma replay_rows_logged:
  "case replay_rows alloc_ok (logged add_fn) cl sth dbc of
     (r, cl', dbc') \<Rightarrow> replay_rows alloc_ok add_fn (fst cl) sth dbc = (r, fst cl', dbc')"
proof (rule replay_rows_cases_induct
    [where P = "\<lambda>cl sth dbc res.
       case res of (r, cl', dbc') \<Rightarrow>
         replay_rows alloc_ok add_fn (fst cl) sth dbc = (r, fst cl', dbc')"], goal_cases)
  case (1 cl sth dbc rc sth1 dbc1)
  then show ?case by (simp add: replay_rows_stop)
next
  case (2 cl sth dbc sth1 dbc1)
  then show ?case by (simp add: replay_rows_crash)
next
  case (3 cl sth dbc sth1 dbc1 gret ctx1)
  obtain c0 l0 where cl: "cl = (c0, l0)" by (cases cl)
  from logged_result [OF 3(3) [unfolded cl]] 3(1,2,4) cl show ?case
    by (simp add: replay_rows_fail [where alloc_ok = alloc_ok and add_fn = add_fn])
next
  case (4 cl sth dbc sth1 dbc1 ctx1 res)
  obtain c0 l0 where cl: "cl = (c0, l0)" by (cases cl)
  from logged_result [OF 4(3) [unfolded cl]] 4(1,2,4) cl show ?case
    by (simp add: replay_rows_continue [where alloc_ok = alloc_ok and add_fn = add_fn]
             split: prod.splits)
qed


lemma select_step_row:
  assumes "sqlite3_step (Some s) (Some c) = (SQLITE_ROW, sth1, dbc1)"
    "stmt_cmd s = SQL_SELECT t" "table_rows (catalog c) t = Some rs"
  obtains s1 c1 where "sth1 = Some s1" "dbc1 = Some c1" "stmt_cmd s1 = SQL_SELECT t"
    "catalog c1 = catalog c" "scan_order c1 = scan_order c"
    "stmt_cursor s1 = stmt_cursor s + 1" "stmt_cursor s < length (scan_order c rs)"
    "sqlite3_column_row sth1 = scan_order c rs ! stmt_cursor s"
proof -
  obtain f c0 where nf: "next_fault c = (f, c0)" by (cases "next_fault c")
  note k = next_fault_keeps [OF nf]
  let ?s1 = "s\<lparr>stmt_cursor := stmt_cursor s + 1,
               stmt_row := Some (scan_order c rs ! stmt_cursor s),
               stmt_rc := SQLITE_ROW\<rparr>"
  from assms nf k have ne: "\<not> is_error f"
    by (auto simp: sqlite3_step_def is_error_def split: if_splits)
  from assms nf ne k have lt: "stmt_cursor s < length (scan_order c rs)"
    by (auto simp: sqlite3_step_def exec_step_def split: if_splits prod.splits)
  with assms nf ne k have r: "sth1 = Some ?s1" "dbc1 = Some c0"
    by (auto simp: sqlite3_step_def exec_step_def split: if_splits prod.splits)
  show ?thesis
  proof (rule that [of ?s1 c0])
    show "sqlite3_column_row sth1 = scan_order c rs ! stmt_cursor s"
      using r by (simp add: sqlite3_column_row_def)
  qed (use r k lt assms(2) in simp_all)
qed

lemma log_ok_Cons:
  "snd e = GEARMAN_SUCCESS \<Longrightarrow> log_ok r new \<Longrightarrow> log_ok r (e # new)"
  by (auto simp: log_ok_def)

lemma replay_rows_log:
  "case replay_rows alloc_ok (logged add_fn) cl sth dbc of
     (r, cl', dbc') \<Rightarrow>
       \<exists>new. snd cl' = snd cl @ new \<and> log_ok r new
         \<and> (\<forall>s c t rs. sth = Some s \<and> dbc = Some c \<and> stmt_cmd s = SQL_SELECT t
                \<and> table_rows (catalog c) t = Some rs
              \<longrightarrow> (\<exists>k. map fst new
                        = map row_job (take k (drop (stmt_cursor s) (scan_order c rs)))))"
proof (rule replay_rows_cases_induct
    [where P = "\<lambda>cl sth dbc res.
       case res of (r, cl', dbc') \<Rightarrow>
         \<exists>new. snd cl' = snd cl @ new \<and> log_ok r new
           \<and> (\<forall>s c t rs. sth = Some s \<and> dbc = Some c \<and> stmt_cmd s = SQL_SELECT t
                  \<and> table_rows (catalog c) t = Some rs
                \<longrightarrow> (\<exists>k. map fst new
                          = map row_job (take k (drop (stmt_cursor s) (scan_order c rs)))))"],
    goal_cases)
  case (1 cl sth dbc rc sth1 dbc1)
  show ?case by (auto simp: log_ok_def intro!: exI [of _ "[]"] exI [of _ 0])
next
  case (2 cl sth dbc sth1 dbc1)
  show ?case by (auto simp: log_ok_def intro!: exI [of _ "[]"] exI [of _ 0])
next
  case (3 cl sth dbc sth1 dbc1 gret ctx1)
  obtain c0 l0 where cl: "cl = (c0, l0)" by (cases cl)
  let ?rw = "sqlite3_column_row sth1"
  let ?e = "(row_job ?rw, gret)"
  from logged_result(2) [OF 3(3) [unfolded cl]]
  have l1: "snd ctx1 = l0 @ [?e]" by (simp add: row_job_def)
  have pre: "\<exists>k. map fst [?e] = map row_job (take k (drop (stmt_cursor s) (scan_order c rs)))"
    if "sth = Some s" "dbc = Some c" "stmt_cmd s = SQL_SELECT t"
      "table_rows (catalog c) t = Some rs" for s c t rs
  proof -
    from 3(1) that obtain s1 c1 where st: "stmt_cursor s < length (scan_order c rs)"
      "?rw = scan_order c rs ! stmt_cursor s"
      by (auto elim: select_step_row)
    then have "take 1 (drop (stmt_cursor s) (scan_order c rs)) = [?rw]"
      by (simp add: take_Suc_conv_app_nth hd_drop_conv_nth take_Suc)
    then show ?thesis by (intro exI [of _ 1]) simp
  qed
  show ?case
    using l1 cl pre by (auto simp: log_ok_def intro!: exI [of _ "[?e]"])
next
  case (4 cl sth dbc sth1 dbc1 ctx1 res)
  obtain c0 l0 where cl: "cl = (c0, l0)" by (cases cl)
  obtain r cl' dbc' where res: "res = (r, cl', dbc')" by (cases res)
  let ?rw = "sqlite3_column_row sth1"
  let ?e = "(row_job ?rw, GEARMAN_SUCCESS)"
  from logged_result(2) [OF 4(3) [unfolded cl]]
  have l1: "snd ctx1 = l0 @ [?e]" by (simp add: row_job_def)
  from 4(4) res obtain new where n: "snd cl' = snd ctx1 @ new" "log_ok r new"
    and ih: "\<And>s c t rs. \<lbrakk>sth1 = Some s; dbc1 = Some c; stmt_cmd s = SQL_SELECT t;
                table_rows (catalog c) t = Some rs\<rbrakk>
              \<Longrightarrow> \<exists>k. map fst new = map row_job (take k (drop (stmt_cursor s) (scan_order c rs)))"
    by auto
  have pre: "\<exists>k. map fst (?e # new)
               = map row_job (take k (drop (stmt_cursor s) (scan_order c rs)))"
    if "sth = Some s" "dbc = Some c" "stmt_cmd s = SQL_SELECT t"
      "table_rows (catalog c) t = Some rs" for s c t rs
  proof -
    from 4(1) that obtain s1 c1 where st: "sth1 = Some s1" "dbc1 = Some c1"
      "stmt_cmd s1 = SQL_SELECT t" "catalog c1 = catalog c" "scan_order c1 = scan_order c"
      "stmt_cursor s1 = stmt_cursor s + 1" "stmt_cursor s < length (scan_order c rs)"
      "?rw = scan_order c rs ! stmt_cursor s"
      by (auto elim: select_step_row)
    from ih [OF st(1,2,3)] st(4,5,6) that(4) obtain k where
      k: "map fst new = map row_job (take k (drop (Suc (stmt_cursor s)) (scan_order c rs)))"
      by auto
    have "drop (stmt_cursor s) (scan_order c rs)
            = ?rw # drop (Suc (stmt_cursor s)) (scan_order c rs)"
      using st(7,8) by (simp add: Cons_nth_drop_Suc)
    then have "map fst (?e # new) = map row_job (take (Suc k) (drop (stmt_cursor s) (scan_order c rs)))"
      using k by simp
    then show ?thesis by blast
  qed
  have "snd cl' = snd cl @ (?e # new)" using n(1) l1 cl by simp
  moreover have "log_ok r (?e # new)" using n(2) by (intro log_ok_Cons) simp
  ultimately show ?case using res pre by (auto intro!: exI [of _ "?e # new"])
qed


lemma sqlite_query_ok_stmt:
  assumes Q: "sqlite_query queue (Some s) (length s) = (SQLITE_OK, sth, queue')"
    and dbq: "db queue = Some c" and len: "length s < 2 ^ 31"
  obtains cmd c' where "sql_parse s = Some cmd" "sth = Some (new_stmt cmd)" "prepare_ok cmd c'"
    "db queue' = Some c'" "catalog c' = catalog c" "scan_order c' = scan_order c"
proof -
  have tx: "(if size_t_to_int (length s) < 0 then s else take (nat (size_t_to_int (length s))) s) = s"
    using len by (simp add: size_t_to_int_small)
  obtain f c1 where nf: "next_fault (c\<lparr>trace := trace c @ [s]\<rparr>) = (f, c1)"
    by (cases "next_fault (c\<lparr>trace := trace c @ [s]\<rparr>)")
  note k = next_fault_keeps [OF nf]
  from Q dbq nf obtain cmd where "sql_parse s = Some cmd" "sth = Some (new_stmt cmd)"
    "prepare_ok cmd c1" "db queue' = Some c1"
    unfolding sqlite_query_def sqlite3_prepare_def
    by (auto simp: tx Let_def is_error_def split: if_splits option.splits)
  with k show ?thesis by (intro that [of cmd c1]) simp_all
qed

lemma stored_rows_same:
  assumes "map_option catalog (db queue') = map_option catalog (db queue)"
    "table queue' = table queue"
  shows "stored_rows queue' = stored_rows queue"
  using assms by (auto simp: stored_rows_def split: option.splits)

lemma sqlite_replay_logged:
  assumes "sqlite_replay alloc_ok queue (logged add_fn) (ctx, l0) = (r, cl', queue')"
  shows "sqlite_replay alloc_ok queue add_fn ctx = (r, fst cl', queue')"
    and "\<exists>new. snd cl' = l0 @ new \<and> log_ok r new
          \<and> (\<forall>c. db queue = Some c
                  \<and> length (select_sql (table queue)) < GEARMAN_QUEUE_QUERY_BUFFER
                \<longrightarrow> (\<exists>k. map fst new
                          = take k (map row_job (scan_order c (stored_rows queue)))))"
proof -
  let ?goal2 = "\<exists>new. snd cl' = l0 @ new \<and> log_ok r new
          \<and> (\<forall>c. db queue = Some c
                  \<and> length (select_sql (table queue)) < GEARMAN_QUEUE_QUERY_BUFFER
                \<longrightarrow> (\<exists>k. map fst new
                          = take k (map row_job (scan_order c (stored_rows queue)))))"
  have empty: "snd cl' = l0 \<Longrightarrow> ?goal2"
    by (auto simp: log_ok_def intro!: exI [of _ "[]"] exI [of _ 0])
  have both: "sqlite_replay alloc_ok queue add_fn ctx = (r, fst cl', queue') \<and> ?goal2"
  proof (cases "realloc_query alloc_ok queue GEARMAN_QUEUE_QUERY_BUFFER")
    case None
    with assms empty show ?thesis by (auto simp: sqlite_replay_def)
  next
    case (Some q1)
    note rf = realloc_query_Some [OF Some]
    show ?thesis
    proof (cases "snprintf (query q1) GEARMAN_QUEUE_QUERY_BUFFER (select_sql (table q1))")
      case None
      with assms Some empty show ?thesis by (auto simp: sqlite_replay_def)
    next
      case sn: (Some bn)
      obtain buf n where bn: "bn = (buf, n)" by (cases bn)
      obtain rc sth q2 where Q: "sqlite_query (q1\<lparr>query := buf\<rparr>) buf n = (rc, sth, q2)"
        by (cases "sqlite_query (q1\<lparr>query := buf\<rparr>) buf n")
      show ?thesis
      proof (cases "rc \<noteq> SQLITE_OK")
        case True
        with assms Some sn bn Q empty show ?thesis by (auto simp: sqlite_replay_def)
      next
        case ok: False
        obtain gret cx dbc where RR:
          "replay_rows alloc_ok (logged add_fn) (ctx, l0) sth (db q2) = (gret, cx, dbc)"
          by (cases "replay_rows alloc_ok (logged add_fn) (ctx, l0) sth (db q2)")
        from assms Some sn bn Q ok RR have res: "r = gret" "cl' = cx" "queue' = q2\<lparr>db := dbc\<rparr>"
          by (auto simp: sqlite_replay_def)
        from replay_rows_logged [where alloc_ok = alloc_ok and add_fn = add_fn and cl = "(ctx, l0)"
               and sth = sth and dbc = "db q2"] RR
        have plain: "replay_rows alloc_ok add_fn ctx sth (db q2) = (gret, fst cx, dbc)"
          by simp
        have p1: "sqlite_replay alloc_ok queue add_fn ctx = (r, fst cl', queue')"
          using Some sn bn Q ok plain res by (simp add: sqlite_replay_def)
        from replay_rows_log [where alloc_ok = alloc_ok and add_fn = add_fn and cl = "(ctx, l0)"
               and sth = sth and dbc = "db q2"] RR
        obtain new where n: "snd cx = l0 @ new" "log_ok gret new"
          and pre: "\<And>s c t rs. \<lbrakk>sth = Some s; db q2 = Some c; stmt_cmd s = SQL_SELECT t;
                      table_rows (catalog c) t = Some rs\<rbrakk>
                    \<Longrightarrow> \<exists>k. map fst new
                          = map row_job (take k (drop (stmt_cursor s) (scan_order c rs)))"
          by auto
        have "\<exists>k. map fst new = take k (map row_job (scan_order c (stored_rows queue)))"
          if dbq: "db queue = Some c"
            and fits: "length (select_sql (table queue)) < GEARMAN_QUEUE_QUERY_BUFFER" for c
        proof -
          let ?t = "table queue"
          have b: "buf = Some (select_sql ?t)" "n = length (select_sql ?t)"
            using sn bn fits rf(2)
            by (auto simp: snprintf_def GEARMAN_QUEUE_QUERY_BUFFER_def
                     split: if_splits option.splits)
          from Q ok b have Q': "sqlite_query (q1\<lparr>query := buf\<rparr>) (Some (select_sql ?t))
                                  (length (select_sql ?t)) = (SQLITE_OK, sth, q2)" by simp
          have d1: "db (q1\<lparr>query := buf\<rparr>) = Some c" using rf(3) dbq by simp
          have l: "length (select_sql ?t) < 2 ^ 31"
            using fits by (simp add: GEARMAN_QUEUE_QUERY_BUFFER_def)
          from sqlite_query_ok_stmt [OF Q' d1 l] obtain cmd c2 where
            pc: "sql_parse (select_sql ?t) = Some cmd" and
            st0: "sth = Some (new_stmt cmd)" "prepare_ok cmd c2"
            "db q2 = Some c2" "catalog c2 = catalog c" "scan_order c2 = scan_order c"
            by blast
          have cm: "cmd = SQL_SELECT ?t" using pc by (rule sql_parse_select_Some(1))
          note st = st0 [unfolded cm]
          from st(2,4) obtain rs where rs: "table_rows (catalog c) ?t = Some rs"
            by (auto simp: prepare_ok_def)
          then have sr: "stored_rows queue = rs" using dbq by (simp add: stored_rows_def)
          from pre [OF st(1,3), of ?t rs] rs st(4,5)
          obtain k where "map fst new = map row_job (take k (scan_order c rs))"
            by (auto simp: new_stmt_def)
          then show ?thesis using sr by (auto simp: take_map)
        qed
        with n res p1 show ?thesis by auto
      qed
    qed
  qed
  from both show "sqlite_replay alloc_ok queue add_fn ctx = (r, fst cl', queue')" by simp
  from both show ?goal2 by simp
qed

text \<open>
  C9. Run a replay with any callback, and keep a record of the calls. The record shows
  the same run as the callback alone gives. Every call but the last returned success:
  a call that fails is the last one, and its status is what replay returns. With an
  open connection and a SELECT that fits the buffer, the jobs visited are the first
  rows of the table in scan order, so the rows after a failing one are not visited.
  Whatever happens, failure of the callback or of the driver or none, the tables of
  the connection are the same after the replay as before.
\<close>

theorem replay_stops_at_failure:
  "case sqlite_replay alloc_ok queue (logged add_fn) (ctx, []) of
     (r, (ctx', log), queue') \<Rightarrow>
       sqlite_replay alloc_ok queue add_fn ctx = (r, ctx', queue')
       \<and> (\<forall>e \<in> set (butlast log). snd e = GEARMAN_SUCCESS)
       \<and> (log \<noteq> [] \<and> snd (last log) \<noteq> GEARMAN_SUCCESS \<longrightarrow> r = Some (snd (last log)))
       \<and> (\<forall>c. db queue = Some c
               \<and> length (select_sql (table queue)) < GEARMAN_QUEUE_QUERY_BUFFER
             \<longrightarrow> (\<exists>k. map fst log = take k (map row_job (scan_order c (stored_rows queue)))))
       \<and> map_option catalog (db queue') = map_option catalog (db queue)
       \<and> stored_rows queue' = stored_rows queue"
proof -
  obtain r cl' queue' where R:
    "sqlite_replay alloc_ok queue (logged add_fn) (ctx, []) = (r, cl', queue')"
    by (cases "sqlite_replay alloc_ok queue (logged add_fn) (ctx, [])") auto
  obtain ctx' log where cl: "cl' = (ctx', log)" by (cases cl')
  from sqlite_replay_facts [OF R]
  have cat: "map_option catalog (db queue') = map_option catalog (db queue)"
    and tb: "table queue' = table queue" by simp_all
  from sqlite_replay_logged [OF R] cl cat stored_rows_same [OF cat tb] show ?thesis
    by (auto simp: R log_ok_def)
qed


theorem replay_stops_at_failure_witness:
  "length (stored_rows example_three_queue) = 3
   \<and> fst (sqlite_replay alloc_always example_three_queue (refuse_key [0x6A, 0x32]) 0)
       = Some (GEARMAN_RETURN_OTHER 25)
   \<and> fst (snd (sqlite_replay alloc_always example_three_queue (refuse_key [0x6A, 0x32]) 0)) = 1
   \<and> snd (fst (snd (sqlite_replay alloc_always example_three_queue
                        (logged (refuse_key [0x6A, 0x32])) (0, []))))
       = [(([0x6A, 0x33], [0x77, 0x63], [0x2A], GEARMAN_JOB_PRIORITY_NORMAL), GEARMAN_SUCCESS),
          (([0x6A, 0x32], [0x77, 0x63], [], GEARMAN_JOB_PRIORITY_LOW), GEARMAN_RETURN_OTHER 25)]
   \<and> stored_rows (snd (snd (sqlite_replay alloc_always example_three_queue
                              (logged (refuse_key [0x6A, 0x32])) (0, []))))
       = stored_rows example_three_queue"
  using replay_stops_at_failure [of alloc_always example_three_queue "refuse_key [0x6A, 0x32]" 0]
  by (simp add: driver_defs queue_defs example_defs example_full_defs example_three_queue_def
      refuse_key_def logged_def replay_rows.simps Let_def priority_of_int64_enum
      GEARMAN_JOB_PRIORITY_HIGH_def GEARMAN_JOB_PRIORITY_NORMAL_def GEARMAN_JOB_PRIORITY_LOW_def)

section \<open>Long table names\<close>

text \<open>
  \<^verbatim>\<open>_sqlite_replay\<close> formats its statement into \<^verbatim>\<open>GEARMAN_QUEUE_QUERY_BUFFER\<close>
  bytes, of which the fixed text takes 51: what reaches the driver names the table by
  the first 204 bytes of the configured name.
\<close>

lemma select_sql_truncated: "take 255 (select_sql t) = select_sql (take 204 t)"
  by (simp add: select_sql_def)

text \<open>
  Which table a replay reads: the one named by the first 204 bytes of the configured
  name, since the SELECT is cut to the 255 bytes that fit the buffer.
\<close>

lemma sqlite_replay_reads:
  assumes dbq: "db queue = Some c" and fl: "faults c = []"
    and qn: "query queue = None \<longrightarrow> query_size queue = 0"
    and len: "length (table queue) < 2 ^ 30"
    and alloc: "\<And>n. alloc_ok n"
  shows "issued (snd (snd (sqlite_replay alloc_ok queue record_job ctx)))
           = issued queue @ [select_sql (take 204 (table queue))]"
    and "table_rows (catalog c) (take 204 (table queue)) = None
           \<or> \<not> plain_name (take 204 (table queue))
           \<Longrightarrow> fst (sqlite_replay alloc_ok queue record_job ctx) = Some GEARMAN_QUEUE_ERROR
               \<and> fst (snd (sqlite_replay alloc_ok queue record_job ctx)) = ctx"
    and "plain_name (take 204 (table queue))
           \<Longrightarrow> table_rows (catalog c) (take 204 (table queue)) = Some rs
           \<Longrightarrow> fst (sqlite_replay alloc_ok queue record_job ctx) = Some GEARMAN_SUCCESS
               \<and> fst (snd (sqlite_replay alloc_ok queue record_job ctx))
                   = ctx @ map row_job (scan_order c rs)"
proof -
  let ?t = "table queue"
  let ?s = "select_sql (take 204 ?t)"
  obtain q1 old where R: "realloc_query alloc_ok queue GEARMAN_QUEUE_QUERY_BUFFER = Some q1"
    "query q1 = Some old" "db q1 = db queue" "table q1 = table queue"
  proof (rule realloc_query_ok [OF _ _ qn, of alloc_ok GEARMAN_QUEUE_QUERY_BUFFER])
    show "alloc_ok GEARMAN_QUEUE_QUERY_BUFFER" by (rule alloc)
    show "0 < GEARMAN_QUEUE_QUERY_BUFFER" by (simp add: GEARMAN_QUEUE_QUERY_BUFFER_def)
  qed
  have sn: "snprintf (query q1) GEARMAN_QUEUE_QUERY_BUFFER (select_sql (table q1)) =
              Some (Some ?s, length (select_sql ?t))"
    using R(2,4) by (simp add: snprintf_def GEARMAN_QUEUE_QUERY_BUFFER_def select_sql_truncated)
  let ?q1' = "q1\<lparr>query := Some ?s\<rparr>"
  let ?c2 = "c\<lparr>trace := trace c @ [?s]\<rparr>"
  let ?q2 = "?q1'\<lparr>db := Some ?c2\<rparr>"
  have l1: "length ?s \<le> length (select_sql ?t)" "length (select_sql ?t) < 2 ^ 31"
    "length ?s < 2 ^ 31"
    using len by (simp_all add: select_sql_def)
  have d1: "db ?q1' = Some c" using R(3) dbq by simp
  have iss: "issued ?q2 = issued queue @ [?s]"
    using dbq by (simp add: issued_def)
  have refuse: "sqlite_replay alloc_ok queue record_job ctx = (Some GEARMAN_QUEUE_ERROR, ctx, ?q2)"
    if bad: "table_rows (catalog c) (take 204 ?t) = None \<or> \<not> plain_name (take 204 ?t)"
  proof -
    have "sql_parse ?s = None \<or> (\<exists>cmd. sql_parse ?s = Some cmd \<and> \<not> prepare_ok cmd c)"
    proof (cases "sql_parse ?s")
      case None
      then show ?thesis by simp
    next
      case (Some cmd)
      from sql_parse_select_Some [OF Some] bad
      have "cmd = SQL_SELECT (take 204 ?t)" "table_rows (catalog c) (take 204 ?t) = None"
        by simp_all
      with Some show ?thesis by (simp add: prepare_ok_def)
    qed
    with d1 fl l1(1,2)
    have Q: "sqlite_query ?q1' (Some ?s) (length (select_sql ?t)) = (SQLITE_ERROR, None, ?q2)"
      by (rule sqlite_query_refused)
    show ?thesis
      unfolding sqlite_replay_def by (simp add: R(1) sn Q)
  qed
  have accept: "sqlite_replay alloc_ok queue record_job ctx
                  = (Some GEARMAN_SUCCESS, ctx @ map row_job (scan_order c rs'), ?q2)"
    if pl: "plain_name (take 204 ?t)" and Some: "table_rows (catalog c) (take 204 ?t) = Some rs'"
    for rs'
  proof -
    have Q: "sqlite_query ?q1' (Some ?s) (length (select_sql ?t)) =
               (SQLITE_OK, Some (new_stmt (SQL_SELECT (take 204 ?t))), ?q2)"
      using d1 fl l1 Some
      by (intro sqlite_query_ok) (auto simp: sql_parse_select [OF pl] prepare_ok_def)
    have RR: "replay_rows alloc_ok record_job ctx (Some (new_stmt (SQL_SELECT (take 204 ?t))))
                (Some ?c2) = (Some GEARMAN_SUCCESS, ctx @ map row_job (scan_order c rs'), Some ?c2)"
      using replay_rows_record
              [of "new_stmt (SQL_SELECT (take 204 ?t))" "take 204 ?t" ?c2 rs' alloc_ok ctx]
            Some fl alloc
      by (simp add: new_stmt_def)
    show ?thesis
      unfolding sqlite_replay_def by (simp add: R(1) sn Q RR)
  qed
  show "issued (snd (snd (sqlite_replay alloc_ok queue record_job ctx))) = issued queue @ [?s]"
  proof (cases "plain_name (take 204 ?t) \<and> table_rows (catalog c) (take 204 ?t) \<noteq> None")
    case True
    then obtain rs' where "table_rows (catalog c) (take 204 ?t) = Some rs'" by auto
    with True accept [of rs'] iss show ?thesis by simp
  next
    case False
    then have "table_rows (catalog c) (take 204 ?t) = None \<or> \<not> plain_name (take 204 ?t)"
      by auto
    from refuse [OF this] iss show ?thesis by simp
  qed
  show "fst (sqlite_replay alloc_ok queue record_job ctx) = Some GEARMAN_QUEUE_ERROR
          \<and> fst (snd (sqlite_replay alloc_ok queue record_job ctx)) = ctx"
    if "table_rows (catalog c) (take 204 ?t) = None \<or> \<not> plain_name (take 204 ?t)"
    using refuse [OF that] by simp
  show "fst (sqlite_replay alloc_ok queue record_job ctx) = Some GEARMAN_SUCCESS
          \<and> fst (snd (sqlite_replay alloc_ok queue record_job ctx))
              = ctx @ map row_job (scan_order c rs)"
    if "plain_name (take 204 ?t)" "table_rows (catalog c) (take 204 ?t) = Some rs"
    using accept [OF that] by simp
qed

lemma takeWhile_replicate_append:
  "P a \<Longrightarrow> takeWhile P (replicate n a @ xs) = replicate n a @ takeWhile P xs"
  by (induction n) auto

lemma dropWhile_replicate_append:
  "P a \<Longrightarrow> dropWhile P (replicate n a @ xs) = dropWhile P xs"
  by (induction n) auto

lemma ident_char_a: "ident_char (CHR ''a'')" "ident_start (CHR ''a'')"
  by (simp_all add: ident_char_def ident_start_def)

lemma plain_name_replicate: "plain_name (replicate (Suc n) (CHR ''a''))"
  by (simp add: plain_name_def ident_char_a list_all_iff)

lemma long_table_facts:
  "length long_table = 205" "take 204 long_table = replicate 204 (CHR ''a'')"
  "\<not> strcasecmp_eq long_table (take 204 long_table)"
  "select_sql (take 204 long_table) \<noteq> select_sql long_table"
  "plain_name long_table" "plain_name (take 204 long_table)"
  using plain_name_replicate [of 204] plain_name_replicate [of 203]
  by (simp_all add: long_table_def strcasecmp_eq_def select_sql_def)

text \<open>
  C8. For every table name of up to 255 bytes the replay issues a SELECT of the four
  columns from exactly the configured table. With a name of 205 bytes the statement
  issued is not the SELECT from that table but the SELECT from the table named by its
  first 204 bytes: with only the configured table in the store the replay fails and
  delivers none of its two rows; with a table of the shorter name in the store as well,
  the replay succeeds and delivers the row of that other table.
\<close>

theorem replay_truncates_long_table_name:
  "length long_table = 205
   \<and> length long_table < SQLITE_MAX_TABLE_SIZE
   \<and> table example_long_queue = long_table
   \<and> stored_rows example_long_queue = example_rows
   \<and> issued (snd (snd (sqlite_replay alloc_always example_long_queue record_job [])))
       = [select_sql (take 204 long_table)]
   \<and> select_sql (take 204 long_table) \<noteq> select_sql long_table
   \<and> fst (sqlite_replay alloc_always example_long_queue record_job []) = Some GEARMAN_QUEUE_ERROR
   \<and> fst (snd (sqlite_replay alloc_always example_long_queue record_job [])) = []
   \<and> table example_shadow_queue = long_table
   \<and> stored_rows example_shadow_queue = example_rows
   \<and> fst (sqlite_replay alloc_always example_shadow_queue record_job []) = Some GEARMAN_SUCCESS
   \<and> fst (snd (sqlite_replay alloc_always example_shadow_queue record_job []))
       = [([0x6A, 0x33], [0x77, 0x63], [0x2A], GEARMAN_JOB_PRIORITY_NORMAL)]"
proof -
  note lt = long_table_facts
  let ?c1 = "example_db\<lparr>catalog := [(long_table, example_rows)]\<rparr>"
  let ?r3 = "job_row [0x6A, 0x33] [0x77, 0x63] [0x2A] GEARMAN_JOB_PRIORITY_NORMAL"
  let ?c2 = "example_db\<lparr>catalog := [(long_table, example_rows), (take 204 long_table, [?r3])]\<rparr>"
  have al: "\<And>n. alloc_always n" by (simp add: alloc_always_def)
  have same: "strcasecmp_eq long_table long_table" "strcasecmp_eq (take 204 long_table) (take 204 long_table)"
    by (simp_all add: strcasecmp_eq_def)
  have a: "db example_long_queue = Some ?c1" "faults ?c1 = []"
    "query example_long_queue = None \<longrightarrow> query_size example_long_queue = 0"
    "length (table example_long_queue) < 2 ^ 30"
    "table example_long_queue = long_table" "issued example_long_queue = []"
    "stored_rows example_long_queue = example_rows"
    "table_rows (catalog ?c1) (take 204 (table example_long_queue)) = None"
    using lt(3) same
    by (simp_all add: example_long_queue_def example_db_def lt(1) issued_def stored_rows_def)
  have b: "db example_shadow_queue = Some ?c2" "faults ?c2 = []"
    "query example_shadow_queue = None \<longrightarrow> query_size example_shadow_queue = 0"
    "length (table example_shadow_queue) < 2 ^ 30"
    "table example_shadow_queue = long_table"
    "stored_rows example_shadow_queue = example_rows"
    "table_rows (catalog ?c2) (take 204 (table example_shadow_queue)) = Some [?r3]"
    "scan_order ?c2 = rev"
    using lt(3) same
    by (simp_all add: example_shadow_queue_def example_db_def lt(1) stored_rows_def)
  have rj: "row_job ?r3 = ([0x6A, 0x33], [0x77, 0x63], [0x2A], GEARMAN_JOB_PRIORITY_NORMAL)"
    by (simp add: row_job_def job_row_def priority_of_int64_enum GEARMAN_JOB_PRIORITY_NORMAL_def)
  have a8: "table_rows (catalog ?c1) (take 204 (table example_long_queue)) = None
              \<or> \<not> plain_name (take 204 (table example_long_queue))"
    using a(8) by simp
  have b0: "plain_name (take 204 (table example_shadow_queue))"
    using lt(6) b(5) by simp
  from sqlite_replay_reads(1) [where ctx = "[]" and alloc_ok = alloc_always, OF a(1,2,3,4) al]
    sqlite_replay_reads(2) [where ctx = "[]" and alloc_ok = alloc_always, OF a(1,2,3,4) al a8]
    sqlite_replay_reads(3) [where ctx = "[]" and alloc_ok = alloc_always, OF b(1,2,3,4) al b0 b(7)]
  show ?thesis
    by (simp add: lt(1,4) a(5,6,7) b(5,6,8) rj SQLITE_MAX_TABLE_SIZE_def)
qed

text \<open>
  \<^verbatim>\<open>_sqlite_add\<close> and \<^verbatim>\<open>_sqlite_done\<close> size the buffer from the job alone, 256
  bytes and twice the bytes of the job, and format with that size: a table name too
  long for it has its statement cut like the SELECT of the replay. The byte count
  handed to prepare is the one \<^verbatim>\<open>snprintf\<close> returns, that of the whole statement, but
  the driver stops at the terminator of what was written. The handles with long table
  names are in working order.
\<close>

lemma split_name_cut:
  assumes pl: "plain_name t" and tl: "tail \<noteq> []" "\<not> ident_char (hd tail)"
    and m: "m < length (t @ tail)"
  shows "split_name (take m (t @ tail)) = None
         \<or> (\<exists>t' tail'. split_name (take m (t @ tail)) = Some (t', tail')
               \<and> length tail' < length tail)"
proof (cases "m \<le> length t")
  case True
  then have e: "take m (t @ tail) = take m t" by simp
  have all: "\<forall>x \<in> set (take m t). ident_char x"
    using pl by (auto simp: plain_name_def list_all_iff dest: in_set_takeD)
  then have tw: "takeWhile ident_char (take m t) = take m t"
    and dw: "dropWhile ident_char (take m t) = []"
    by simp_all
  have "split_name (take m t) = None \<or> split_name (take m t) = Some (take m t, [])"
    by (simp add: split_name_def Let_def tw dw)
  then show ?thesis
    unfolding e using tl(1) by auto
next
  case False
  then have e: "take m (t @ tail) = t @ take (m - length t) tail" by simp
  have ne: "take (m - length t) tail \<noteq> []" using False tl(1) by simp
  have hd: "hd (take (m - length t) tail) = hd tail" using False by (cases tail) auto
  from split_name_plain [OF pl, of "take (m - length t) tail"] tl(2) hd
  have "split_name (t @ take (m - length t) tail) = Some (t, take (m - length t) tail)"
    by simp
  then have "split_name (take m (t @ tail)) = Some (t, take (m - length t) tail)"
    by (simp only: e)
  moreover have "length (take (m - length t) tail) < length tail" using m False by simp
  ultimately show ?thesis by blast
qed

lemma sql_parse_insert_cut:
  assumes pl: "plain_name t" and k: "12 \<le> k" "k < length (insert_sql t)"
  shows "sql_parse (take k (insert_sql t)) = None"
proof -
  let ?tail = "'' (priority,unique_key,function_name,data) VALUES (?,?,?,?)''"
  define P where "P = ''INSERT INTO ''"
  have lP: "length P = 12" by (simp add: P_def)
  have "insert_sql t = P @ (t @ ?tail)" by (simp add: insert_sql_def P_def)
  then have "take k (insert_sql t) = take k P @ take (k - length P) (t @ ?tail)"
    by (simp only: take_append)
  also have "take k P = P" using k(1) lP by simp
  finally have "take k (insert_sql t) = P @ take (k - 12) (t @ ?tail)"
    by (simp only: lP)
  then have e: "take k (insert_sql t) = ''INSERT INTO '' @ take (k - 12) (t @ ?tail)"
    by (simp only: P_def)
  have m: "k - 12 < length (t @ ?tail)" using k by (simp add: insert_sql_def)
  have sp: "strip_prefix ''INSERT INTO '' (take k (insert_sql t)) = Some (take (k - 12) (t @ ?tail))"
    unfolding e by (rule strip_prefix_append)
  from split_name_cut [OF pl _ _ m]
  have c: "split_name (take (k - 12) (t @ ?tail)) = None
         \<or> (\<exists>t' tail'. split_name (take (k - 12) (t @ ?tail)) = Some (t', tail')
               \<and> length tail' < length ?tail)"
    by (simp add: not_ident_space)
  have ne: "take k (insert_sql t) \<noteq> ''BEGIN TRANSACTION''" "take k (insert_sql t) \<noteq> ''COMMIT''"
    "take k (insert_sql t) \<noteq> catalog_sql"
    unfolding e catalog_sql_def by simp_all
  from c show ?thesis
    unfolding sql_parse_def using ne sp by (auto split: option.splits)
qed

lemma sql_parse_delete_cut:
  assumes pl: "plain_name t"
  shows "sql_parse (''DELETE FROM '' @ t) = Some (SQL_DELETE_ALL t)"
proof -
  have sp: "strip_prefix ''DELETE FROM '' (''DELETE FROM '' @ t) = Some t"
    by (rule strip_prefix_append)
  have sn: "split_name t = Some (t, [])"
    using split_name_plain [OF pl, of "[]"] by simp
  show ?thesis
    unfolding sql_parse_def using sp sn by (simp add: catalog_sql_def)
qed

text \<open>
  On any handle in working order whose table name is a word, an add whose INSERT does
  not fit the size computed from the job fails and stores nothing, with the transaction
  left open.
\<close>

lemma sqlite_add_cut:
  assumes h: "healthy queue" and dbq: "db queue = Some c"
    and plain: "plain_name (table queue)"
    and len: "length (table queue) < SQLITE_MAX_TABLE_SIZE"
    and sz: "length unique < 2 ^ 31" "length function_name < 2 ^ 31" "length data < 2 ^ 31"
    and cut: "(length unique + length function_name + length data) * 2 + 256
                \<le> length (insert_sql (table queue))"
    and alloc: "\<And>n. alloc_ok n"
  obtains queue' where
    "sqlite_add alloc_ok queue unique function_name data priority = (Some GEARMAN_QUEUE_ERROR, queue')"
    "stored_rows queue' = stored_rows queue" "in_trans queue' \<noteq> 0"
proof -
  define needed where "needed = (length unique + length function_name + length data) * 2 + 256"
  have nd: "((length unique + length function_name + length data) * 2
              + GEARMAN_QUEUE_QUERY_BUFFER) mod SIZE_MODULUS = needed"
    unfolding needed_def by (rule add_needed [OF sz])
  have big: "256 \<le> needed" by (simp add: needed_def)
  let ?t = "table queue"
  define s where "s = take (needed - 1) (insert_sql ?t)"
  from h dbq obtain qL cL where L: "sqlite_lock queue = (SQLITE_OK, qL)" "db qL = Some cL"
    "healthy qL" "in_trans qL \<noteq> 0" "catalog cL = catalog c" "scan_order cL = scan_order c"
    "table qL = table queue" "query qL = query queue" "query_size qL = query_size queue"
    by (rule healthy_after_lock)
  from L(2,3) have qn: "query qL = None \<longrightarrow> query_size qL = 0" and fl: "faults cL = []"
    using L(4) by (auto simp: healthy_def)
  obtain q1 old where R: "realloc_query alloc_ok qL needed = Some q1"
    "query q1 = Some old" "db q1 = db qL" "table q1 = table qL"
    "in_trans q1 = in_trans qL" "query_size q1 = max (query_size qL) needed"
  proof (rule realloc_query_ok [OF _ _ qn, of alloc_ok needed])
    show "alloc_ok needed" by (rule alloc)
    show "0 < needed" using big by simp
  qed
  have sn: "snprintf (query q1) needed (insert_sql (table q1)) =
              Some (Some s, length (insert_sql ?t))"
    using R(2,4) L(7) big by (simp add: snprintf_def s_def)
  let ?q1' = "q1\<lparr>query := Some s\<rparr>"
  let ?c2 = "cL\<lparr>trace := trace cL @ [s]\<rparr>"
  let ?q3 = "?q1'\<lparr>db := Some ?c2\<rparr>"
  have np: "sql_parse s = None"
    unfolding s_def using plain big cut by (intro sql_parse_insert_cut) (simp_all add: needed_def)
  have l: "length s \<le> length (insert_sql ?t)" "length (insert_sql ?t) < 2 ^ 31"
    using len by (simp_all add: s_def insert_sql_def SQLITE_MAX_TABLE_SIZE_def)
  have Q: "sqlite_query ?q1' (Some s) (length (insert_sql ?t)) = (SQLITE_ERROR, None, ?q3)"
    using R(3) L(2) fl l np by (intro sqlite_query_refused) simp_all
  have res: "sqlite_add alloc_ok queue unique function_name data priority
               = (Some GEARMAN_QUEUE_ERROR, ?q3)"
    unfolding sqlite_add_def L(1) nd
    by (simp add: R(1) sn Q)
  show ?thesis
  proof (rule that [OF res])
    show "stored_rows ?q3 = stored_rows queue"
      using dbq R(4) L(5,7) by (simp add: stored_rows_def)
    show "in_trans ?q3 \<noteq> 0" using R(5) L(4) by simp
  qed
qed

text \<open>
  On any such handle, a done whose buffer ends right after the table name succeeds and
  leaves the table empty, whatever the key.
\<close>

lemma sqlite_done_cut:
  assumes h: "healthy queue" and dbq: "db queue = Some c"
    and plain: "plain_name (table queue)"
    and len: "length (table queue) < SQLITE_MAX_TABLE_SIZE"
    and cut: "length (table queue) = length unique * 2 + 243"
    and alloc: "\<And>n. alloc_ok n"
  obtains queue' where
    "sqlite_done alloc_ok queue unique function_name = (Some GEARMAN_SUCCESS, queue')"
    "stored_rows queue' = []" "in_trans queue' = 0"
proof -
  have sz: "length unique < 2 ^ 31" using len cut by (simp add: SQLITE_MAX_TABLE_SIZE_def)
  define needed where "needed = length unique * 2 + 256"
  have nd: "(length unique * 2 + GEARMAN_QUEUE_QUERY_BUFFER) mod SIZE_MODULUS = needed"
    unfolding needed_def by (rule done_needed [OF sz])
  have big: "256 \<le> needed" by (simp add: needed_def)
  let ?t = "table queue"
  define s where "s = ''DELETE FROM '' @ ?t"
  have ds: "delete_sql ?t = s @ '' WHERE unique_key=?''" by (simp add: delete_sql_def s_def)
  have ns: "needed - 1 = length s" using cut by (simp add: needed_def s_def)
  have tk: "take (needed - 1) (delete_sql ?t) = s" unfolding ds ns by simp
  have ps: "sql_parse s = Some (SQL_DELETE_ALL ?t)"
    unfolding s_def by (rule sql_parse_delete_cut [OF plain])
  from h dbq obtain qL cL where L: "sqlite_lock queue = (SQLITE_OK, qL)" "db qL = Some cL"
    "healthy qL" "in_trans qL \<noteq> 0" "catalog cL = catalog c" "scan_order cL = scan_order c"
    "table qL = table queue" "query qL = query queue" "query_size qL = query_size queue"
    by (rule healthy_after_lock)
  from L(2,3) have qn: "query qL = None \<longrightarrow> query_size qL = 0" and fl: "faults cL = []"
    and txn: "in_txn cL" and ex: "table_rows (catalog cL) (table qL) \<noteq> None"
    using L(4) by (auto simp: healthy_def)
  obtain q1 old where R: "realloc_query alloc_ok qL needed = Some q1"
    "query q1 = Some old" "db q1 = db qL" "table q1 = table qL"
    "in_trans q1 = in_trans qL" "query_size q1 = max (query_size qL) needed"
  proof (rule realloc_query_ok [OF _ _ qn, of alloc_ok needed])
    show "alloc_ok needed" by (rule alloc)
    show "0 < needed" using big by simp
  qed
  have sn: "snprintf (query q1) needed (delete_sql (table q1)) =
              Some (Some s, length (delete_sql ?t))"
    using R(2,4) L(7) big tk by (simp add: snprintf_def)
  let ?q1' = "q1\<lparr>query := Some s\<rparr>"
  let ?c2 = "cL\<lparr>trace := trace cL @ [s]\<rparr>"
  have l: "length s < 2 ^ 31" "length s \<le> length (delete_sql ?t)"
    "length (delete_sql ?t) < 2 ^ 31"
    using len by (simp_all add: s_def delete_sql_def SQLITE_MAX_TABLE_SIZE_def)
  have Q: "sqlite_query ?q1' (Some s) (length (delete_sql ?t)) =
             (SQLITE_OK, Some (new_stmt (SQL_DELETE_ALL ?t)), ?q1'\<lparr>db := Some ?c2\<rparr>)"
    using fl ex R(3) L(2,7) l
    by (intro sqlite_query_ok)
       (auto simp: ps prepare_ok_def)
  obtain rs where rs: "table_rows (catalog c) ?t = Some rs"
    using ex L(5,7) by auto
  let ?c3 = "?c2\<lparr>catalog := update_rows (\<lambda>rs. []) ?t (catalog c)\<rparr>"
  let ?sth1 = "sqlite3_bind_text (Some (new_stmt (SQL_DELETE_ALL ?t))) 1 unique"
  have S: "\<exists>s5. sqlite3_step ?sth1 (Some ?c2) = (SQLITE_DONE, s5, Some ?c3)"
    using fl rs L(5)
    by (simp add: sqlite3_step_def next_fault_def is_error_def exec_step_def new_stmt_def
        sqlite3_bind_def sqlite3_bind_text_def)
  then obtain s5 where S5: "sqlite3_step ?sth1 (Some ?c2) = (SQLITE_DONE, s5, Some ?c3)" ..
  let ?q3 = "?q1'\<lparr>db := Some ?c3\<rparr>"
  have h3: "healthy ?q3"
    using fl txn R(5) L(4,7) R(4) rs by (simp add: healthy_def table_rows_update)
  let ?c4 = "?c3\<lparr>trace := trace ?c3 @ [''COMMIT''], in_txn := False\<rparr>"
  let ?q4 = "?q3\<lparr>db := Some ?c4, in_trans := 0\<rparr>"
  have C: "sqlite_commit ?q3 = (SQLITE_OK, ?q4)"
    using sqlite_commit_healthy [OF h3, of ?c3] R(5) L(4) by simp
  have res: "sqlite_done alloc_ok queue unique function_name = (Some GEARMAN_SUCCESS, ?q4)"
    unfolding sqlite_done_def L(1) nd
    using S5 C by (simp add: R(1) sn Q Let_def)
  show ?thesis
  proof (rule that [OF res])
    show "stored_rows ?q4 = []"
      using rs R(4) L(7) by (simp add: stored_rows_def table_rows_update)
  qed simp
qed

lemma long_queues_healthy:
  "healthy example_long_fresh_queue" "healthy example_longest_queue"
  "healthy example_longest_stored_queue"
  by (simp_all add: healthy_def example_long_fresh_queue_def example_longest_queue_def
      example_longest_stored_queue_def example_db_def strcasecmp_eq_def)

lemma longest_table_facts:
  "length longest_table = 255" "plain_name longest_table"
  "strcasecmp_eq longest_table longest_table"
  "take 267 (delete_sql longest_table) = ''DELETE FROM '' @ longest_table"
  "length (insert_sql longest_table) = 325" "length (delete_sql longest_table) = 286"
  using plain_name_replicate [of 254]
  by (simp_all add: longest_table_def strcasecmp_eq_def delete_sql_def insert_sql_def)

lemma sqlite_add_long_table:
  "sqlite_add alloc_always example_long_fresh_queue [0x6A, 0x33] [0x77, 0x63] []
     GEARMAN_JOB_PRIORITY_LOW
   = (Some GEARMAN_QUEUE_ERROR,
      \<lparr>db = Some (example_db
              \<lparr>catalog := [(long_table, [])], in_txn := True,
                trace := [''BEGIN TRANSACTION'', take 263 (insert_sql long_table)]\<rparr>),
       table = long_table, query = Some (take 263 (insert_sql long_table)),
       query_size = 264, in_trans = 1\<rparr>)"
  by (simp add: driver_defs queue_defs example_defs example_long_fresh_queue_def long_table_def
      Let_def takeWhile_replicate_append dropWhile_replicate_append ident_char_a)

text \<open>
  C1. For every valid job, add and then replay yield exactly one row with the fields of
  the job. On the handle whose table name has 205 bytes that does not hold: adding the
  job \<^verbatim>\<open>("j3", "wc", LOW, "")\<close> sends an INSERT cut at 263 bytes of its 275,
  which the driver refuses; the call returns \<^verbatim>\<open>GEARMAN_QUEUE_ERROR\<close>, the table stays
  empty, and the replay that follows delivers nothing.
\<close>

theorem add_fails_on_long_table_name:
  "length long_table = 205
   \<and> length long_table < SQLITE_MAX_TABLE_SIZE
   \<and> plain_name long_table
   \<and> table example_long_fresh_queue = long_table
   \<and> stored_rows example_long_fresh_queue = []
   \<and> in_trans example_long_fresh_queue = 0
   \<and> valid_priority GEARMAN_JOB_PRIORITY_LOW
   \<and> fst (sqlite_add alloc_always example_long_fresh_queue [0x6A, 0x33] [0x77, 0x63] []
            GEARMAN_JOB_PRIORITY_LOW) = Some GEARMAN_QUEUE_ERROR
   \<and> issued (snd (sqlite_add alloc_always example_long_fresh_queue [0x6A, 0x33]
                    [0x77, 0x63] [] GEARMAN_JOB_PRIORITY_LOW))
       = [''BEGIN TRANSACTION'', take 263 (insert_sql long_table)]
   \<and> length (insert_sql long_table) = 275
   \<and> stored_rows (snd (sqlite_add alloc_always example_long_fresh_queue [0x6A, 0x33]
                         [0x77, 0x63] [] GEARMAN_JOB_PRIORITY_LOW)) = []
   \<and> in_trans (snd (sqlite_add alloc_always example_long_fresh_queue [0x6A, 0x33]
                      [0x77, 0x63] [] GEARMAN_JOB_PRIORITY_LOW)) = 1
   \<and> fst (snd (sqlite_replay alloc_always
                 (snd (sqlite_add alloc_always example_long_fresh_queue [0x6A, 0x33]
                         [0x77, 0x63] [] GEARMAN_JOB_PRIORITY_LOW))
                 record_job [])) = []"
proof -
  note lt = long_table_facts
  let ?c = "example_db\<lparr>catalog := [(long_table, [])], in_txn := True,
                       trace := [''BEGIN TRANSACTION'', take 263 (insert_sql long_table)]\<rparr>"
  let ?q = "\<lparr>db = Some ?c, table = long_table,
             query = Some (take 263 (insert_sql long_table)), query_size = 264, in_trans = 1\<rparr>"
  have al: "\<And>n. alloc_always n" by (simp add: alloc_always_def)
  have same: "strcasecmp_eq long_table long_table" by (simp add: strcasecmp_eq_def)
  have before: "table example_long_fresh_queue = long_table"
    "stored_rows example_long_fresh_queue = []" "in_trans example_long_fresh_queue = 0"
    using same by (simp_all add: example_long_fresh_queue_def example_db_def stored_rows_def)
  have vp: "valid_priority GEARMAN_JOB_PRIORITY_LOW" by (simp add: valid_priority_def)
  have len: "length (insert_sql long_table) = 275"
    by (simp add: insert_sql_def lt(1))
  have after: "issued ?q = [''BEGIN TRANSACTION'', take 263 (insert_sql long_table)]"
    "stored_rows ?q = []"
    using same by (simp_all add: issued_def stored_rows_def example_db_def)
  have q: "db ?q = Some ?c" "faults ?c = []" "query ?q = None \<longrightarrow> query_size ?q = 0"
    "length (table ?q) < 2 ^ 30"
    "table_rows (catalog ?c) (take 204 (table ?q)) = None
       \<or> \<not> plain_name (take 204 (table ?q))"
    using lt(3) by (simp_all add: example_db_def lt(1))
  from sqlite_replay_reads(2) [where ctx = "[]" and alloc_ok = alloc_always, OF q(1,2,3,4) al q(5)]
  have rp: "fst (snd (sqlite_replay alloc_always ?q record_job [])) = []" by simp
  show ?thesis
    unfolding sqlite_add_long_table
    using before vp len after rp lt(1,5)
    by (simp add: SQLITE_MAX_TABLE_SIZE_def)
qed

text \<open>
  With a payload of 40 bytes the buffer is large enough for the INSERT even with the
  longest table name: the job is stored.
\<close>

lemma sqlite_add_longest_table:
  "sqlite_add alloc_always example_longest_queue example_key example_function long_payload
     GEARMAN_JOB_PRIORITY_HIGH
   = (Some GEARMAN_SUCCESS, example_longest_stored_queue)"
  by (simp add: driver_defs queue_defs example_defs example_longest_queue_def
      example_longest_stored_queue_def longest_table_def long_payload_def
      Let_def takeWhile_replicate_append dropWhile_replicate_append ident_char_a)

lemma sqlite_done_longest_table:
  "sqlite_done alloc_always example_longest_stored_queue [0x61, 0x62, 0x73, 0x65, 0x6E, 0x74] []
   = (Some GEARMAN_SUCCESS,
      \<lparr>db = Some (example_db
              \<lparr>catalog := [(longest_table, [])],
                trace := [''BEGIN TRANSACTION'', insert_sql longest_table, ''COMMIT'',
                          ''BEGIN TRANSACTION'', ''DELETE FROM '' @ longest_table, ''COMMIT'']\<rparr>),
       table = longest_table, query = Some (''DELETE FROM '' @ longest_table),
       query_size = 360, in_trans = 0\<rparr>)"
  by (simp add: driver_defs queue_defs example_defs example_longest_stored_queue_def
      longest_table_def long_payload_def
      Let_def takeWhile_replicate_append dropWhile_replicate_append ident_char_a)

text \<open>
  C2. For every key, done removes the stored row with that key and no other, and
  succeeds whether or not there is one. On the handle whose table name has the full 255
  bytes that does not hold. The job of the scenario, added with a payload of 40 bytes,
  is stored. Completing a job of a 6-byte key that is not stored then formats the DELETE
  into 268 bytes, which cuts it right after the table name: the driver deletes every
  row of the table and the call returns \<^verbatim>\<open>GEARMAN_SUCCESS\<close>. The stored job, of
  another key, is gone.
\<close>

theorem done_empties_table_on_long_name:
  "length longest_table = 255
   \<and> length longest_table < SQLITE_MAX_TABLE_SIZE
   \<and> plain_name longest_table
   \<and> table example_longest_queue = longest_table
   \<and> sqlite_add alloc_always example_longest_queue example_key example_function long_payload
         GEARMAN_JOB_PRIORITY_HIGH
       = (Some GEARMAN_SUCCESS, example_longest_stored_queue)
   \<and> stored_rows example_longest_stored_queue
       = [job_row example_key example_function long_payload GEARMAN_JOB_PRIORITY_HIGH]
   \<and> [0x61, 0x62, 0x73, 0x65, 0x6E, 0x74] \<noteq> example_key
   \<and> fst (sqlite_done alloc_always example_longest_stored_queue
            [0x61, 0x62, 0x73, 0x65, 0x6E, 0x74] []) = Some GEARMAN_SUCCESS
   \<and> issued (snd (sqlite_done alloc_always example_longest_stored_queue
                    [0x61, 0x62, 0x73, 0x65, 0x6E, 0x74] []))
       = issued example_longest_stored_queue
           @ [''BEGIN TRANSACTION'', take 267 (delete_sql longest_table), ''COMMIT'']
   \<and> take 267 (delete_sql longest_table) = ''DELETE FROM '' @ longest_table
   \<and> length (delete_sql longest_table) = 286
   \<and> stored_rows (snd (sqlite_done alloc_always example_longest_stored_queue
                         [0x61, 0x62, 0x73, 0x65, 0x6E, 0x74] [])) = []"
proof -
  note lt = longest_table_facts
  have before: "table example_longest_queue = longest_table"
    "stored_rows example_longest_stored_queue
       = [job_row example_key example_function long_payload GEARMAN_JOB_PRIORITY_HIGH]"
    "issued example_longest_stored_queue
       = [''BEGIN TRANSACTION'', insert_sql longest_table, ''COMMIT'']"
    using lt(3)
    by (simp_all add: example_longest_queue_def example_longest_stored_queue_def example_db_def
        stored_rows_def issued_def)
  have key: "[0x61, 0x62, 0x73, 0x65, 0x6E, 0x74] \<noteq> example_key"
    by (simp add: example_key_def)
  let ?c = "example_db\<lparr>catalog := [(longest_table, [])],
              trace := [''BEGIN TRANSACTION'', insert_sql longest_table, ''COMMIT'',
                        ''BEGIN TRANSACTION'', ''DELETE FROM '' @ longest_table, ''COMMIT'']\<rparr>"
  let ?q = "\<lparr>db = Some ?c, table = longest_table,
             query = Some (''DELETE FROM '' @ longest_table), query_size = 360, in_trans = 0\<rparr>"
  have after: "issued ?q = [''BEGIN TRANSACTION'', insert_sql longest_table, ''COMMIT'',
                           ''BEGIN TRANSACTION'', ''DELETE FROM '' @ longest_table, ''COMMIT'']"
    "stored_rows ?q = []"
    using lt(3) by (simp_all add: issued_def stored_rows_def example_db_def)
  show ?thesis
    unfolding sqlite_add_longest_table sqlite_done_longest_table lt(4)
    using lt(1,2,6) before key after
    by (simp add: SQLITE_MAX_TABLE_SIZE_def)
qed

section \<open>Failures of the initialisation\<close>

text \<open>
  Whenever the initialisation fails, either the server is as it was, or no handle is
  registered, or the last statement sent was the CREATE TABLE and the handle is still
  registered with its connection open.
\<close>

lemma deinit_and_fail_result:
  assumes "deinit_and_fail gearman = Some (r, g)"
  shows "r = GEARMAN_QUEUE_ERROR" "queue_fn_arg g = None"
  using assms
  by (auto simp: deinit_and_fail_def gearman_queue_libsqlite3_deinit_def split: option.splits)

lemma sqlite_query_prepared:
  assumes "sqlite_query queue (Some s) (length s) = (SQLITE_OK, sth, queue')"
    and "length s < 2 ^ 31"
  shows "issued queue' = issued queue @ [s]" "db queue' \<noteq> None" "table queue' = table queue"
  using assms
  by (auto simp: sqlite_query_def sqlite3_prepare_def Let_def issued_def size_t_to_int_small
           split: prod.splits if_splits option.splits dest!: next_fault_trace)

lemma init_create_failure:
  assumes "init_create gearman queue = Some (r, g)" "r \<noteq> GEARMAN_SUCCESS"
  shows "r = GEARMAN_QUEUE_ERROR"
    and "queue_fn_arg g = None
         \<or> (\<exists>queue'. queue_fn_arg g = Some queue' \<and> db queue' \<noteq> None
               \<and> table queue' = table queue
               \<and> issued queue' = issued queue @ [take 1023 (create_sql (table queue))])"
proof -
  define s where "s = take 1023 (create_sql (table queue))"
  have ls: "length s < 2 ^ 31" by (simp add: s_def)
  obtain rc sth queue1 where q: "sqlite_query queue (Some s) (length s) = (rc, sth, queue1)"
    by (cases "sqlite_query queue (Some s) (length s)") auto
  obtain src sth' dbc where st: "sqlite3_step sth (db queue1) = (src, sth', dbc)"
    by (cases "sqlite3_step sth (db queue1)") auto
  have ic: "init_create gearman queue =
      (if rc \<noteq> SQLITE_OK then deinit_and_fail (gearman\<lparr>queue_fn_arg := Some queue1\<rparr>)
       else if src \<noteq> SQLITE_DONE
         then Some (GEARMAN_QUEUE_ERROR, gearman\<lparr>queue_fn_arg := Some (queue1\<lparr>db := dbc\<rparr>)\<rparr>)
       else if sqlite3_finalize sth' \<noteq> SQLITE_OK
         then deinit_and_fail (gearman\<lparr>queue_fn_arg := Some (queue1\<lparr>db := dbc\<rparr>)\<rparr>)
       else Some (GEARMAN_SUCCESS,
                  gearman\<lparr>queue_fn_arg := Some (queue1\<lparr>db := dbc\<rparr>), queue_callbacks := True\<rparr>))"
    using q st by (simp add: init_create_def snprintf_def s_def [symmetric])
  show "r = GEARMAN_QUEUE_ERROR"
    using assms ic by (auto split: if_splits dest: deinit_and_fail_result)
  show "queue_fn_arg g = None
         \<or> (\<exists>queue'. queue_fn_arg g = Some queue' \<and> db queue' \<noteq> None
               \<and> table queue' = table queue
               \<and> issued queue' = issued queue @ [take 1023 (create_sql (table queue))])"
  proof (cases "rc = SQLITE_OK \<and> src \<noteq> SQLITE_DONE")
    case False
    then show ?thesis
      using assms ic by (auto split: if_splits dest: deinit_and_fail_result)
  next
    case True
    then have g: "g = gearman\<lparr>queue_fn_arg := Some (queue1\<lparr>db := dbc\<rparr>)\<rparr>"
      using assms ic by simp
    have q1: "issued queue1 = issued queue @ [s]" "db queue1 \<noteq> None" "table queue1 = table queue"
      using sqlite_query_prepared [OF _ ls] q True by auto
    have d: "map_option trace dbc = map_option trace (db queue1)" "dbc \<noteq> None"
      using sqlite3_step_facts [OF st] q1(2) by auto
    show ?thesis
      using g q1 d issued_db_update [OF d(1)] by (simp add: s_def)
  qed
qed

lemma init_failure:
  assumes "gearman_queue_libsqlite3_init alloc_ok sqlite3_open gearman conf = Some (r, g)"
    and "r \<noteq> GEARMAN_SUCCESS"
  shows "g = gearman \<or> queue_fn_arg g = None
         \<or> (\<exists>queue. queue_fn_arg g = Some queue \<and> db queue \<noteq> None
               \<and> issued queue \<noteq> []
               \<and> last (issued queue) = take 1023 (create_sql (table queue)))"
  using assms
  unfolding gearman_queue_libsqlite3_init_def Let_def
  by (auto split: if_splits option.splits prod.splits conf_result.splits
           dest: deinit_and_fail_result dest!: init_create_failure(2))

text \<open>
  C6. Every failure of the initialisation tears the handle down before returning.
  With an empty database whose driver fails the step of CREATE TABLE, the function
  returns \<^verbatim>\<open>GEARMAN_QUEUE_ERROR\<close> and the handle is still registered with the
  server, its connection open and no callback set; when it is the prepare of the same
  statement that fails, no handle is left.
\<close>

theorem create_step_failure_keeps_handle:
  "gearman_queue_libsqlite3_init alloc_always
     (open_with_faults [SQLITE_OK, SQLITE_OK, SQLITE_OK, SQLITE_READONLY])
     fresh_gearman example_conf
   = Some (GEARMAN_QUEUE_ERROR,
           \<lparr>queue_fn_arg =
              Some \<lparr>db = Some \<lparr>catalog = [], scan_order = rev, text_true = starts_nonzero,
                                in_txn = False, faults = [],
                                trace = [catalog_sql, create_sql ''gearman_queue'']\<rparr>,
                    table = ''gearman_queue'', query = None, query_size = 0, in_trans = 0\<rparr>,
            queue_callbacks = False\<rparr>)
   \<and> gearman_queue_libsqlite3_init alloc_always
       (open_with_faults [SQLITE_OK, SQLITE_OK, SQLITE_READONLY])
       fresh_gearman example_conf
     = Some (GEARMAN_QUEUE_ERROR, \<lparr>queue_fn_arg = None, queue_callbacks = False\<rparr>)"
  by (simp add: init_defs driver_defs queue_defs example_defs fresh_gearman_def
        example_conf_def open_with_faults_def Let_def)

end
